theory Spec2Isabelle
  imports Complex_Main "HOL-Library.Word" "HOL-Library.Log_Nat"
begin

text \<open>
  A model of the greyscale converter \<open>main.go\<close>: the encoder dispatch \<open>encodeImage\<close>,
  the output file name built in \<open>main\<close>, and the transformation \<open>toGreyscale\<close> together
  with the parts of the Go standard library it runs on (rectangles, \<open>color.RGBAModel\<close>,
  \<open>image.RGBA\<close> and its pixel buffer, \<open>float64\<close> arithmetic, \<open>math.Round\<close>). The
  definitions come first, the properties of the program after them.
\<close>

section \<open>Errors\<close>

text \<open>
  A Go \<open>error\<close> value made by \<open>fmt.Errorf\<close> carries its message; a run-time panic
  carries the panic message. A returned \<open>error\<close> that may be \<open>nil\<close> is an
  \<open>error option\<close>; a call that may panic returns \<open>error + 'a\<close>.
\<close>

datatype error = Errorf string | Panic string

section \<open>Format tags and the encoder dispatch\<close>

type_synonym imageFormat = string

definition FormatJPEG :: imageFormat where "FormatJPEG = ''jpeg''"
definition FormatPNG :: imageFormat where "FormatPNG = ''png''"
definition FormatGIF :: imageFormat where "FormatGIF = ''gif''"
definition FormatUnknown :: imageFormat where "FormatUnknown = ''unknown''"

record jpeg_Options =
  Quality :: int

text \<open>
  The three serializers \<open>jpeg.Encode\<close>, \<open>png.Encode\<close> and \<open>gif.Encode\<close> belong to
  the standard library. They are parameters of the model: each takes the state of the
  output file and the image, and returns the new state of the file with the error it
  reports (\<open>None\<close> for \<open>nil\<close>). An options pointer is an option (\<open>None\<close> for \<open>nil\<close>).
\<close>

record ('w, 'img, 'gopts) codecs =
  jpeg_Encode :: "'w \<Rightarrow> 'img \<Rightarrow> jpeg_Options option \<Rightarrow> 'w \<times> error option"
  png_Encode :: "'w \<Rightarrow> 'img \<Rightarrow> 'w \<times> error option"
  gif_Encode :: "'w \<Rightarrow> 'img \<Rightarrow> 'gopts option \<Rightarrow> 'w \<times> error option"

definition encodeImage ::
  "('w, 'img, 'gopts) codecs \<Rightarrow> 'w \<Rightarrow> 'img \<Rightarrow> imageFormat \<Rightarrow> 'w \<times> error option" where
  "encodeImage lib w img format =
     (if format = FormatJPEG then jpeg_Encode lib w img (Some \<lparr>Quality = 90\<rparr>)
      else if format = FormatPNG then png_Encode lib w img
      else if format = FormatGIF then gif_Encode lib w img None
      else (w, Some (Errorf (''unsupported output format: '' @ format))))"

text \<open>Serializers used to run the dispatch on concrete inputs: each appends its name.\<close>

definition demo_codecs :: "(string list, unit, unit) codecs" where
  "demo_codecs =
     \<lparr>jpeg_Encode = (\<lambda>w img opts. (w @ [''jpeg''], None)),
      png_Encode = (\<lambda>w img. (w @ [''png''], None)),
      gif_Encode = (\<lambda>w img opts. (w @ [''gif''], None))\<rparr>"

section \<open>Output path\<close>

text \<open>
  \<open>os.IsPathSeparator\<close> depends on the target system: \<open>/\<close> on Unix, \<open>/\<close> and
  \<open>\\<close> on Windows.
\<close>

datatype goos = Unix | Windows

definition IsPathSeparator :: "goos \<Rightarrow> char \<Rightarrow> bool" where
  "IsPathSeparator sys c =
     (case sys of Unix \<Rightarrow> c = CHR ''/'' | Windows \<Rightarrow> c = CHR 0x5C \<or> c = CHR ''/'')"

text \<open>
  \<open>filepath.Ext\<close>: scan from the last byte towards the first, stop at a path separator,
  return the suffix that starts at the first dot met.
\<close>

function Ext_loop :: "goos \<Rightarrow> string \<Rightarrow> int \<Rightarrow> string" where
  "Ext_loop sys path i =
     (if 0 \<le> i \<and> \<not> IsPathSeparator sys (path ! nat i)
      then (if path ! nat i = CHR ''.'' then drop (nat i) path
            else Ext_loop sys path (i - 1))
      else [])"
  by pat_completeness auto
termination
  by (relation "measure (\<lambda>(sys, path, i). nat (i + 1))") auto

declare Ext_loop.simps [simp del]

definition Ext :: "goos \<Rightarrow> string \<Rightarrow> string" where
  "Ext sys path = Ext_loop sys path (int (length path) - 1)"

definition HasSuffix :: "string \<Rightarrow> string \<Rightarrow> bool" where
  "HasSuffix s suffix =
     (length suffix \<le> length s \<and> drop (length s - length suffix) s = suffix)"

definition TrimSuffix :: "string \<Rightarrow> string \<Rightarrow> string" where
  "TrimSuffix s suffix =
     (if HasSuffix s suffix then take (length s - length suffix) s else s)"

text \<open>The three lines of \<open>main\<close> that build the output file name.\<close>

definition outputFilename :: "goos \<Rightarrow> string \<Rightarrow> string" where
  "outputFilename sys inputFilename =
     (let extension = Ext sys inputFilename;
          baseName = TrimSuffix inputFilename extension
      in baseName @ ''_greyscale'' @ extension)"

text \<open>
  The specification's wording of the same path: the extension is the substring from the
  last dot of the whole path to its end (empty without a dot), the base is the path
  without it.
\<close>

definition spec_ext :: "string \<Rightarrow> string" where
  "spec_ext p =
     (if CHR ''.'' \<in> set p
      then CHR ''.'' # rev (takeWhile (\<lambda>c. c \<noteq> CHR ''.'') (rev p))
      else [])"

definition spec_base :: "string \<Rightarrow> string" where
  "spec_base p = take (length p - length (spec_ext p)) p"

definition spec_output :: "string \<Rightarrow> string" where
  "spec_output p = spec_base p @ ''_greyscale'' @ spec_ext p"

text \<open>The last element of a path: what follows its last path separator.\<close>

definition last_elem :: "goos \<Rightarrow> string \<Rightarrow> string" where
  "last_elem sys p = rev (takeWhile (\<lambda>c. \<not> IsPathSeparator sys c) (rev p))"

section \<open>Machine integers\<close>

unbundle bit_operations_syntax

text \<open>
  Go's \<open>int\<close> is 64 bits wide on the usual targets (amd64, arm64). Coordinates are
  modelled as \<open>int\<close>; \<open>wrap64\<close> is written where the code's arithmetic can leave the
  64-bit range (two's complement wrap-around).
\<close>

definition wrap64 :: "int \<Rightarrow> int" where
  "wrap64 v = (v + 2 ^ 63) mod 2 ^ 64 - 2 ^ 63"

definition is_int64 :: "int \<Rightarrow> bool" where
  "is_int64 v = (- (2 ^ 63) \<le> v \<and> v < 2 ^ 63)"

section \<open>Points and rectangles (package \<open>image\<close>)\<close>

record Point =
  X :: int
  Y :: int

record Rectangle =
  Min_pt :: Point
  Max_pt :: Point

definition Point_Sub :: "Point \<Rightarrow> Point \<Rightarrow> Point" where
  "Point_Sub p q = \<lparr>X = wrap64 (X p - X q), Y = wrap64 (Y p - Y q)\<rparr>"

definition Point_In :: "Point \<Rightarrow> Rectangle \<Rightarrow> bool" where
  "Point_In p r =
     (X (Min_pt r) \<le> X p \<and> X p < X (Max_pt r) \<and> Y (Min_pt r) \<le> Y p \<and> Y p < Y (Max_pt r))"

definition Rectangle_Dx :: "Rectangle \<Rightarrow> int" where
  "Rectangle_Dx r = wrap64 (X (Max_pt r) - X (Min_pt r))"

definition Rectangle_Dy :: "Rectangle \<Rightarrow> int" where
  "Rectangle_Dy r = wrap64 (Y (Max_pt r) - Y (Min_pt r))"

definition Rectangle_Size :: "Rectangle \<Rightarrow> Point" where
  "Rectangle_Size r = Point_Sub (Max_pt r) (Min_pt r)"

text \<open>\<open>image.Rect\<close> swaps the coordinates of an axis given in the wrong order.\<close>

definition image_Rect :: "int \<Rightarrow> int \<Rightarrow> int \<Rightarrow> int \<Rightarrow> Rectangle" where
  "image_Rect x0 y0 x1 y1 =
     (let (x0, x1) = (if x0 > x1 then (x1, x0) else (x0, x1));
          (y0, y1) = (if y0 > y1 then (y1, y0) else (y0, y1))
      in \<lparr>Min_pt = \<lparr>X = x0, Y = y0\<rparr>, Max_pt = \<lparr>X = x1, Y = y1\<rparr>\<rparr>)"

section \<open>Colors (package \<open>image/color\<close>)\<close>

record color_RGBA =
  R :: "8 word"
  G :: "8 word"
  B :: "8 word"
  A :: "8 word"

text \<open>
  A value of the interface \<open>color.Color\<close> is either a \<open>color.RGBA\<close> or a value of
  another type; all that the program asks of another type is the result of its method
  \<open>RGBA()\<close>, four \<open>uint32\<close>, which stands for the value here.
\<close>

datatype Color =
    Color_RGBA color_RGBA
  | Color_other "32 word" "32 word" "32 word" "32 word"

text \<open>The method \<open>RGBA()\<close>; on a \<open>color.RGBA\<close> each channel \<open>c\<close> becomes \<open>c | c << 8\<close>.\<close>

definition widen :: "8 word \<Rightarrow> 32 word" where
  "widen c = (let r = (ucast c :: 32 word) in r OR push_bit 8 r)"

fun Color_RGBA_values :: "Color \<Rightarrow> 32 word \<times> 32 word \<times> 32 word \<times> 32 word" where
  "Color_RGBA_values (Color_RGBA c) = (widen (R c), widen (G c), widen (B c), widen (A c))"
| "Color_RGBA_values (Color_other r g b a) = (r, g, b, a)"

text \<open>
  \<open>color.RGBAModel.Convert\<close>: a \<open>color.RGBA\<close> is returned as it is, any other color
  gives the high bytes of its 16-bit channels.
\<close>

fun rgbaModel :: "Color \<Rightarrow> color_RGBA" where
  "rgbaModel (Color_RGBA c) = c"
| "rgbaModel (Color_other r g b a) =
     \<lparr>R = ucast (drop_bit 8 r), G = ucast (drop_bit 8 g),
      B = ucast (drop_bit 8 b), A = ucast (drop_bit 8 a)\<rparr>"

text \<open>
  The contract of \<open>RGBA()\<close>: alpha-premultiplied channels, each within \<open>[0, 0xffff]\<close> and
  no color channel above alpha.
\<close>

definition premultiplied :: "Color \<Rightarrow> bool" where
  "premultiplied c =
     (case Color_RGBA_values c of
        (r, g, b, a) \<Rightarrow> r \<le> a \<and> g \<le> a \<and> b \<le> a \<and> a \<le> 0xFFFF)"

text \<open>
  A non-premultiplied \<open>color.NRGBA{R, G, B, A}\<close>, the pixel type of a decoded PNG with
  an alpha channel, is one of the other color types: its method \<open>RGBA()\<close> multiplies each
  widened color channel by alpha and divides by \<open>0xff\<close>.
\<close>

definition NRGBA_channel :: "8 word \<Rightarrow> 8 word \<Rightarrow> 32 word" where
  "NRGBA_channel c a = (widen c * ucast a) div 0xFF"

definition Color_NRGBA :: "8 word \<Rightarrow> 8 word \<Rightarrow> 8 word \<Rightarrow> 8 word \<Rightarrow> Color" where
  "Color_NRGBA r g b a =
     Color_other (NRGBA_channel r a) (NRGBA_channel g a) (NRGBA_channel b a) (widen a)"

section \<open>Images\<close>

text \<open>
  The interface \<open>image.Image\<close>, as far as \<open>toGreyscale\<close> uses it: the bounds and the
  color at a point. \<open>At\<close> is a total function, as it is for the image types of the
  standard library, which return the zero color outside their bounds.
\<close>

record Image =
  Bounds :: Rectangle
  At :: "int \<Rightarrow> int \<Rightarrow> Color"

text \<open>The struct \<open>image.RGBA\<close>: four bytes per pixel, row after row.\<close>

record image_RGBA =
  Pix :: "8 word list"
  Stride :: int
  Rect :: Rectangle

text \<open>
  \<open>image.NewRGBA\<close> with its helpers. \<open>mul3NonNeg\<close> returns \<open>x * y * z\<close>, or \<open>-1\<close> when
  an argument is negative or one of the two 64-bit multiplications overflows;
  \<open>pixelBufferLength\<close> panics on \<open>-1\<close>. The allocation of the buffer by \<open>make\<close> is
  taken to succeed: running out of memory is not modelled.
\<close>

definition mul3NonNeg :: "int \<Rightarrow> int \<Rightarrow> int \<Rightarrow> int" where
  "mul3NonNeg x y z =
     (if x < 0 \<or> y < 0 \<or> z < 0 then - 1
      else let hi = (x * y) div 2 ^ 64; lo = (x * y) mod 2 ^ 64
           in if hi \<noteq> 0 then - 1
              else let hi' = (lo * z) div 2 ^ 64; lo' = (lo * z) mod 2 ^ 64
                   in if hi' \<noteq> 0 then - 1
                      else let a = wrap64 lo' in if a < 0 then - 1 else a)"

definition pixelBufferLength :: "int \<Rightarrow> Rectangle \<Rightarrow> string \<Rightarrow> error + int" where
  "pixelBufferLength bytesPerPixel r imageTypeName =
     (let totalLength = mul3NonNeg bytesPerPixel (Rectangle_Dx r) (Rectangle_Dy r)
      in if totalLength < 0
         then Inl (Panic (''image: New'' @ imageTypeName
                          @ '' Rectangle has huge or negative dimensions''))
         else Inr totalLength)"

definition NewRGBA :: "Rectangle \<Rightarrow> error + image_RGBA" where
  "NewRGBA r =
     (case pixelBufferLength 4 r ''RGBA'' of
        Inl e \<Rightarrow> Inl e
      | Inr n \<Rightarrow>
          Inr \<lparr>Pix = replicate (nat n) 0, Stride = wrap64 (4 * Rectangle_Dx r), Rect = r\<rparr>)"

definition PixOffset :: "image_RGBA \<Rightarrow> int \<Rightarrow> int \<Rightarrow> int" where
  "PixOffset p x y =
     wrap64 ((y - Y (Min_pt (Rect p))) * Stride p + (x - X (Min_pt (Rect p))) * 4)"

text \<open>
  \<open>RGBAAt\<close> and \<open>Set\<close> of \<open>image.RGBA\<close>. Both return at once for a point outside
  the rectangle, and otherwise take the slice \<open>Pix[i : i+4]\<close>, which panics outside the
  buffer (the run-time message is shortened here).
\<close>

definition RGBAAt :: "image_RGBA \<Rightarrow> int \<Rightarrow> int \<Rightarrow> error + color_RGBA" where
  "RGBAAt p x y =
     (if \<not> Point_In \<lparr>X = x, Y = y\<rparr> (Rect p) then Inr \<lparr>R = 0, G = 0, B = 0, A = 0\<rparr>
      else let i = PixOffset p x y
           in if i < 0 \<or> int (length (Pix p)) < i + 4
              then Inl (Panic ''slice bounds out of range'')
              else Inr \<lparr>R = Pix p ! nat i, G = Pix p ! (nat i + 1),
                        B = Pix p ! (nat i + 2), A = Pix p ! (nat i + 3)\<rparr>)"

definition RGBA_Set :: "image_RGBA \<Rightarrow> int \<Rightarrow> int \<Rightarrow> Color \<Rightarrow> error + image_RGBA" where
  "RGBA_Set p x y c =
     (if \<not> Point_In \<lparr>X = x, Y = y\<rparr> (Rect p) then Inr p
      else let i = PixOffset p x y; c1 = rgbaModel c
           in if i < 0 \<or> int (length (Pix p)) < i + 4
              then Inl (Panic ''slice bounds out of range'')
              else Inr (p\<lparr>Pix := (Pix p)[nat i := R c1, nat i + 1 := G c1,
                                         nat i + 2 := B c1, nat i + 3 := A c1]\<rparr>))"

section \<open>Floating point\<close>

text \<open>
  A finite \<open>float64\<close> is the rational number it denotes. An operation computes the exact
  result and rounds it to the nearest binary64 value, ties to even: \<open>expo x\<close> is the
  binary exponent of \<open>x\<close> (\<open>2 ^ expo x \<le> |x| < 2 ^ (expo x + 1)\<close>), the spacing of the
  binary64 values around \<open>x\<close> is \<open>2 ^ (expo x - 52)\<close>, and \<open>2 ^ (- 1074)\<close> below the
  normal range. Overflow to infinity (from \<open>2 ^ 1024\<close> on) is not modelled; the values of
  this program stay below \<open>2 ^ 9\<close>.
\<close>

type_synonym float64 = rat

definition expo :: "rat \<Rightarrow> int" where
  "expo x =
     (let (p, q) = quotient_of \<bar>x\<bar>; e = bitlen p - bitlen q
      in if 2 powi e \<le> \<bar>x\<bar> then e else e - 1)"

definition rne :: "rat \<Rightarrow> int" where
  "rne t =
     (let f = \<lfloor>t\<rfloor>; d = t - of_int f
      in if d < 1 / 2 then f else if 1 / 2 < d then f + 1
         else if even f then f else f + 1)"

definition round64 :: "rat \<Rightarrow> float64" where
  "round64 x =
     (if x = 0 then 0
      else let u = 2 powi (max (expo x) (- 1022) - 52) in of_int (rne (x / u)) * u)"

definition fmul :: "float64 \<Rightarrow> float64 \<Rightarrow> float64" where
  "fmul a b = round64 (a * b)"

definition fadd :: "float64 \<Rightarrow> float64 \<Rightarrow> float64" where
  "fadd a b = round64 (a + b)"

text \<open>The fused multiply-add: \<open>a * b + c\<close> rounded once.\<close>

definition fma :: "float64 \<Rightarrow> float64 \<Rightarrow> float64 \<Rightarrow> float64" where
  "fma a b c = round64 (a * b + c)"

text \<open>The constants of the formula, converted to \<open>float64\<close> by the compiler.\<close>

definition c299 :: float64 where "c299 = round64 (299 / 1000)"
definition c587 :: float64 where "c587 = round64 (587 / 1000)"
definition c114 :: float64 where "c114 = round64 (114 / 1000)"

definition float64_of_uint8 :: "8 word \<Rightarrow> float64" where
  "float64_of_uint8 w = of_nat (unat w)"

text \<open>\<open>math.Round\<close>: to the nearest integer, halves away from zero.\<close>

definition math_Round :: "float64 \<Rightarrow> float64" where
  "math_Round x = (if x < 0 then - of_int \<lfloor>- x + 1 / 2\<rfloor> else of_int \<lfloor>x + 1 / 2\<rfloor>)"

text \<open>
  The conversion \<open>uint8(f)\<close> truncates towards zero and is exact when the truncated
  value is one of 0 to 255. For any other value the Go specification says that the
  conversion succeeds with an implementation-dependent result; the model leaves that
  result unspecified. There is no clamp.
\<close>

definition uint8_of_float64 :: "float64 \<Rightarrow> 8 word" where
  "uint8_of_float64 f =
     (let t = (if f < 0 then - \<lfloor>- f\<rfloor> else \<lfloor>f\<rfloor>)
      in if 0 \<le> t \<and> t \<le> 255 then word_of_int t else undefined f)"

text \<open>
  The Go specification lets a compiler fuse \<open>x * y + z\<close> into one operation that rounds
  once. In \<open>0.299*red + 0.587*green + 0.114*blue\<close> the first addition can take either
  product as the fused one, the second addition the third product. The choice is a
  parameter; \<open>(No_FMA, False)\<close> rounds every operation (the amd64 default).
\<close>

datatype fma_use = No_FMA | FMA_first | FMA_second

type_synonym fma_choice = "fma_use \<times> bool"

definition luminosity :: "fma_choice \<Rightarrow> float64 \<Rightarrow> float64 \<Rightarrow> float64 \<Rightarrow> float64" where
  "luminosity m red green blue =
     (let s = (case fst m of
                 No_FMA \<Rightarrow> fadd (fmul c299 red) (fmul c587 green)
               | FMA_first \<Rightarrow> fma c299 red (fmul c587 green)
               | FMA_second \<Rightarrow> fma c587 green (fmul c299 red))
      in if snd m then fma c114 blue s else fadd s (fmul c114 blue))"

section \<open>The greyscale transformation\<close>

text \<open>
  The body of the inner loop up to \<open>modifiedColor\<close>: the pixel read from the source is
  converted by \<open>color.RGBAModel\<close>, the grey value is computed from its three color
  channels, and the new color takes the alpha of the converted pixel.
\<close>

definition greyValue :: "fma_choice \<Rightarrow> color_RGBA \<Rightarrow> 8 word" where
  "greyValue m originalColor =
     (let red = float64_of_uint8 (R originalColor);
          green = float64_of_uint8 (G originalColor);
          blue = float64_of_uint8 (B originalColor)
      in uint8_of_float64 (math_Round (luminosity m red green blue)))"

definition modifiedColor :: "fma_choice \<Rightarrow> Color \<Rightarrow> color_RGBA" where
  "modifiedColor m pixel =
     (let originalColor = rgbaModel pixel;
          grey = greyValue m originalColor
      in \<lparr>R = grey, G = grey, B = grey, A = A originalColor\<rparr>)"

function loop_y ::
  "fma_choice \<Rightarrow> Image \<Rightarrow> Point \<Rightarrow> int \<Rightarrow> int \<Rightarrow> image_RGBA \<Rightarrow> error + image_RGBA" where
  "loop_y m originalImage sz x y modifiedImg =
     (if y < Y sz
      then (case RGBA_Set modifiedImg x y
                   (Color_RGBA (modifiedColor m (At originalImage x y))) of
              Inl e \<Rightarrow> Inl e
            | Inr img \<Rightarrow> loop_y m originalImage sz x (y + 1) img)
      else Inr modifiedImg)"
  by pat_completeness auto
termination
  by (relation "measure (\<lambda>(m, originalImage, sz, x, y, modifiedImg). nat (Y sz - y))") auto

function loop_x ::
  "fma_choice \<Rightarrow> Image \<Rightarrow> Point \<Rightarrow> int \<Rightarrow> image_RGBA \<Rightarrow> error + image_RGBA" where
  "loop_x m originalImage sz x modifiedImg =
     (if x < X sz
      then (case loop_y m originalImage sz x 0 modifiedImg of
              Inl e \<Rightarrow> Inl e
            | Inr img \<Rightarrow> loop_x m originalImage sz (x + 1) img)
      else Inr modifiedImg)"
  by pat_completeness auto
termination
  by (relation "measure (\<lambda>(m, originalImage, sz, x, modifiedImg). nat (X sz - x))") auto

declare loop_y.simps [simp del] loop_x.simps [simp del]

definition toGreyscale :: "fma_choice \<Rightarrow> Image \<Rightarrow> error + image_RGBA" where
  "toGreyscale m originalImage =
     (let sz = Rectangle_Size (Bounds originalImage);
          rect = image_Rect 0 0 (X sz) (Y sz)
      in case NewRGBA rect of
           Inl e \<Rightarrow> Inl e
         | Inr modifiedImg \<Rightarrow> loop_x m originalImage sz 0 modifiedImg)"

section \<open>Well-formed pixel buffers and example images\<close>

text \<open>
  The invariant of an \<open>image.RGBA\<close> made by \<open>NewRGBA\<close>: the buffer holds four bytes
  for each point of the rectangle, its length fits a 64-bit \<open>int\<close>, and the stride is the
  length of a row (a rectangle without rows needs no stride).
\<close>

definition valid_RGBA :: "image_RGBA \<Rightarrow> bool" where
  "valid_RGBA p =
     (let w = X (Max_pt (Rect p)) - X (Min_pt (Rect p));
          h = Y (Max_pt (Rect p)) - Y (Min_pt (Rect p))
      in 0 \<le> w \<and> 0 \<le> h \<and> int (length (Pix p)) = 4 * (w * h) \<and> 4 * (w * h) < 2 ^ 63
         \<and> (h = 0 \<or> Stride p = 4 * w))"

definition zero_RGBA :: color_RGBA where
  "zero_RGBA = \<lparr>R = 0, G = 0, B = 0, A = 0\<rparr>"

definition NewRGBA_panic :: error where
  "NewRGBA_panic = Panic ''image: NewRGBA Rectangle has huge or negative dimensions''"

text \<open>A 2 x 1 image at the origin with the opaque pixels (200, 100, 50) and pure red.\<close>

definition src_2x1 :: Image where
  "src_2x1 =
     \<lparr>Bounds = \<lparr>Min_pt = \<lparr>X = 0, Y = 0\<rparr>, Max_pt = \<lparr>X = 2, Y = 1\<rparr>\<rparr>,
      At = (\<lambda>x y. if x = 0 \<and> y = 0 then Color_RGBA \<lparr>R = 200, G = 100, B = 50, A = 255\<rparr>
                   else if x = 1 \<and> y = 0 then Color_RGBA \<lparr>R = 255, G = 0, B = 0, A = 255\<rparr>
                   else Color_RGBA zero_RGBA)\<rparr>"

text \<open>
  The same two pixels held in another color type, whose \<open>RGBA()\<close> returns the 16-bit
  values \<open>0xC8C8, 0x6464, 0x3232, 0xFFFF\<close> and \<open>0xFFFF, 0, 0, 0xFFFF\<close>.
\<close>

definition src_other_2x1 :: Image where
  "src_other_2x1 =
     \<lparr>Bounds = \<lparr>Min_pt = \<lparr>X = 0, Y = 0\<rparr>, Max_pt = \<lparr>X = 2, Y = 1\<rparr>\<rparr>,
      At = (\<lambda>x y. if x = 0 \<and> y = 0 then Color_other 0xC8C8 0x6464 0x3232 0xFFFF
                   else if x = 1 \<and> y = 0 then Color_other 0xFFFF 0 0 0xFFFF
                   else Color_other 0 0 0 0)\<rparr>"

text \<open>
  A 2 x 1 image as a PNG with an alpha channel decodes (\<open>image.NRGBA\<close>), with the stored
  pixels \<open>(200, 100, 50, 255)\<close> and \<open>(10, 20, 30, 0)\<close>.
\<close>

definition src_nrgba_2x1 :: Image where
  "src_nrgba_2x1 =
     \<lparr>Bounds = \<lparr>Min_pt = \<lparr>X = 0, Y = 0\<rparr>, Max_pt = \<lparr>X = 2, Y = 1\<rparr>\<rparr>,
      At = (\<lambda>x y. if x = 0 \<and> y = 0 then Color_NRGBA 200 100 50 255
                   else if x = 1 \<and> y = 0 then Color_NRGBA 10 20 30 0
                   else Color_NRGBA 0 0 0 0)\<rparr>"

text \<open>The same two pixels in a rectangle whose minimum corner is (10, 10).\<close>

definition src_offset_2x1 :: Image where
  "src_offset_2x1 =
     \<lparr>Bounds = \<lparr>Min_pt = \<lparr>X = 10, Y = 10\<rparr>, Max_pt = \<lparr>X = 12, Y = 11\<rparr>\<rparr>,
      At = (\<lambda>x y. if x = 10 \<and> y = 10 then Color_RGBA \<lparr>R = 200, G = 100, B = 50, A = 255\<rparr>
                   else if x = 11 \<and> y = 10 then Color_RGBA \<lparr>R = 255, G = 0, B = 0, A = 255\<rparr>
                   else Color_RGBA zero_RGBA)\<rparr>"

text \<open>A 1 x 1 image with a grey, half-transparent pixel.\<close>

definition src_grey_1x1 :: Image where
  "src_grey_1x1 =
     \<lparr>Bounds = \<lparr>Min_pt = \<lparr>X = 0, Y = 0\<rparr>, Max_pt = \<lparr>X = 1, Y = 1\<rparr>\<rparr>,
      At = (\<lambda>x y. if x = 0 \<and> y = 0 then Color_RGBA \<lparr>R = 77, G = 77, B = 77, A = 128\<rparr>
                   else Color_RGBA zero_RGBA)\<rparr>"

text \<open>
  A 1 x 1 \<open>image.RGBA\<close> whose pixel was stored as \<open>color.RGBA{255, 255, 255, 0}\<close>: color
  channels above alpha.
\<close>

definition src_unmultiplied_1x1 :: Image where
  "src_unmultiplied_1x1 =
     \<lparr>Bounds = \<lparr>Min_pt = \<lparr>X = 0, Y = 0\<rparr>, Max_pt = \<lparr>X = 1, Y = 1\<rparr>\<rparr>,
      At = (\<lambda>x y. if x = 0 \<and> y = 0 then Color_RGBA \<lparr>R = 255, G = 255, B = 255, A = 0\<rparr>
                   else Color_RGBA zero_RGBA)\<rparr>"

text \<open>
  \<open>image.Uniform\<close> with opaque white: every point has the same color, and the bounds are
  the ones the standard library gives it, from \<open>-1e9\<close> to \<open>1e9\<close> on both axes.
\<close>

definition src_uniform :: Image where
  "src_uniform =
     \<lparr>Bounds = \<lparr>Min_pt = \<lparr>X = - 1000000000, Y = - 1000000000\<rparr>,
                Max_pt = \<lparr>X = 1000000000, Y = 1000000000\<rparr>\<rparr>,
      At = (\<lambda>x y. Color_other 0xFFFF 0xFFFF 0xFFFF 0xFFFF)\<rparr>"

text \<open>A 0 x 0 image.\<close>

definition src_empty :: Image where
  "src_empty =
     \<lparr>Bounds = \<lparr>Min_pt = \<lparr>X = 0, Y = 0\<rparr>, Max_pt = \<lparr>X = 0, Y = 0\<rparr>\<rparr>,
      At = (\<lambda>x y. Color_RGBA zero_RGBA)\<rparr>"

text \<open>The coordinates of a rectangle are Go \<open>int\<close>s.\<close>

definition int64_Rectangle :: "Rectangle \<Rightarrow> bool" where
  "int64_Rectangle r =
     (is_int64 (X (Min_pt r)) \<and> is_int64 (Y (Min_pt r))
      \<and> is_int64 (X (Max_pt r)) \<and> is_int64 (Y (Max_pt r)))"

text \<open>
  A 1 x 1 image with the fully transparent pixel \<open>color.NRGBA{10, 20, 30, 0}\<close>.
\<close>

definition src_clear_1x1 :: Image where
  "src_clear_1x1 =
     \<lparr>Bounds = \<lparr>Min_pt = \<lparr>X = 0, Y = 0\<rparr>, Max_pt = \<lparr>X = 1, Y = 1\<rparr>\<rparr>,
      At = (\<lambda>x y. Color_NRGBA 10 20 30 0)\<rparr>"

section \<open>The encoder dispatch: proofs\<close>

text \<open>
  C8. A format tag outside jpeg, png and gif makes \<open>encodeImage\<close> return the error
  \<open>unsupported output format: <tag>\<close> and leave the output file as it was, whatever the
  serializers are (none of them is called); the tags jpeg, png and gif call the JPEG
  serializer with quality 90, the PNG serializer, and the GIF serializer with no options.
\<close>

theorem encodeImage_dispatch:
  "(format \<notin> {FormatJPEG, FormatPNG, FormatGIF} \<longrightarrow>
      encodeImage lib w img format =
        (w, Some (Errorf (''unsupported output format: '' @ format))))
   \<and> encodeImage lib w img FormatJPEG = jpeg_Encode lib w img (Some \<lparr>Quality = 90\<rparr>)
   \<and> encodeImage lib w img FormatPNG = png_Encode lib w img
   \<and> encodeImage lib w img FormatGIF = gif_Encode lib w img None"
  by (simp add: encodeImage_def FormatJPEG_def FormatPNG_def FormatGIF_def)

theorem encodeImage_dispatch_witness:
  "FormatUnknown \<notin> {FormatJPEG, FormatPNG, FormatGIF}
   \<and> encodeImage demo_codecs [] () FormatUnknown =
       ([], Some (Errorf ''unsupported output format: unknown''))
   \<and> encodeImage demo_codecs [] () FormatJPEG = ([''jpeg''], None)
   \<and> encodeImage demo_codecs [] () FormatPNG = ([''png''], None)
   \<and> encodeImage demo_codecs [] () FormatGIF = ([''gif''], None)"
  using encodeImage_dispatch [of FormatUnknown demo_codecs "[]" "()"]
  by (simp add: demo_codecs_def FormatJPEG_def FormatPNG_def FormatGIF_def FormatUnknown_def)

section \<open>The output path: proofs\<close>

lemma last_elem_snoc:
  "last_elem sys (s @ [c]) = (if IsPathSeparator sys c then [] else last_elem sys s @ [c])"
  by (simp add: last_elem_def)

lemma spec_ext_snoc:
  "spec_ext (s @ [c]) =
     (if c = CHR ''.'' then [c] else if CHR ''.'' \<in> set s then spec_ext s @ [c] else [])"
  by (simp add: spec_ext_def)

lemma spec_ext_no_dot: "CHR ''.'' \<notin> set s \<Longrightarrow> spec_ext s = []"
  by (simp add: spec_ext_def)

lemma Ext_loop_take:
  "n \<le> length path \<Longrightarrow>
   Ext_loop sys path (int n - 1) =
     (if CHR ''.'' \<in> set (last_elem sys (take n path))
      then spec_ext (last_elem sys (take n path)) @ drop n path else [])"
proof (induction n)
  case 0
  show ?case by (simp add: Ext_loop.simps [of sys path "- 1"] last_elem_def)
next
  case (Suc n)
  then have n: "n < length path" by simp
  have tk: "take (Suc n) path = take n path @ [path ! n]"
    using n by (simp add: take_Suc_conv_app_nth)
  have dr: "drop n path = path ! n # drop (Suc n) path"
    using n by (simp add: Cons_nth_drop_Suc)
  have ih: "Ext_loop sys path (int n - 1) =
     (if CHR ''.'' \<in> set (last_elem sys (take n path))
      then spec_ext (last_elem sys (take n path)) @ drop n path else [])"
    using Suc by simp
  show ?case
    apply (subst Ext_loop.simps)
    apply (simp add: tk last_elem_snoc spec_ext_snoc ih)
    apply (auto simp: dr)
    done
qed

lemma Ext_eq: "Ext sys path = spec_ext (last_elem sys path)"
  using Ext_loop_take [of "length path" path sys]
  by (simp add: Ext_def spec_ext_no_dot)


lemma spec_ext_split:
  assumes "CHR ''.'' \<notin> set b"
  shows "spec_ext (a @ CHR ''.'' # b) = CHR ''.'' # b"
proof -
  have "takeWhile (\<lambda>c. c \<noteq> CHR ''.'') (rev b @ CHR ''.'' # rev a) = rev b"
    using assms by (subst takeWhile_append2) auto
  then show ?thesis by (simp add: spec_ext_def)
qed

lemma spec_ext_suffix: "\<exists>pre. t = pre @ spec_ext t"
proof (cases "CHR ''.'' \<in> set t")
  case True
  then obtain a b where "t = a @ CHR ''.'' # b" "CHR ''.'' \<notin> set b"
    by (auto dest: split_list_last)
  then show ?thesis by (auto simp: spec_ext_split)
next
  case False
  then show ?thesis by (simp add: spec_ext_def)
qed

lemma last_elem_suffix: "\<exists>pre. p = pre @ last_elem sys p"
proof -
  have "rev p = takeWhile (\<lambda>c. \<not> IsPathSeparator sys c) (rev p)
                @ dropWhile (\<lambda>c. \<not> IsPathSeparator sys c) (rev p)"
    by simp
  then have "rev (rev p) = rev (dropWhile (\<lambda>c. \<not> IsPathSeparator sys c) (rev p))
                @ last_elem sys p"
    unfolding last_elem_def by (metis rev_append)
  then show ?thesis by auto
qed

lemma Ext_suffix: "\<exists>pre. p = pre @ Ext sys p"
proof -
  obtain a where a: "p = a @ last_elem sys p" using last_elem_suffix by blast
  obtain b where b: "last_elem sys p = b @ spec_ext (last_elem sys p)"
    using spec_ext_suffix by blast
  have "p = (a @ b) @ Ext sys p"
    using a b by (metis Ext_eq append_assoc)
  then show ?thesis by blast
qed

lemma TrimSuffix_Ext:
  "TrimSuffix p (Ext sys p) = take (length p - length (Ext sys p)) p"
proof -
  obtain pre where "p = pre @ Ext sys p" using Ext_suffix by blast
  then have "HasSuffix p (Ext sys p)"
    unfolding HasSuffix_def by (metis append_eq_conv_conj diff_add_inverse2 le_add2 length_append)
  then show ?thesis by (simp add: TrimSuffix_def)
qed

lemma last_elem_append:
  assumes "\<forall>c\<in>set t. \<not> IsPathSeparator sys c"
  shows "last_elem sys (a @ t) = last_elem sys a @ t"
proof -
  have "takeWhile (\<lambda>c. \<not> IsPathSeparator sys c) (rev t @ rev a)
        = rev t @ takeWhile (\<lambda>c. \<not> IsPathSeparator sys c) (rev a)"
    using assms by (subst takeWhile_append2) auto
  then show ?thesis by (simp add: last_elem_def)
qed

lemma last_elem_subset: "set (last_elem sys p) \<subseteq> set p"
  unfolding last_elem_def using set_takeWhileD by fastforce

lemma spec_ext_last_elem:
  assumes "\<forall>c\<in>set (spec_ext p). \<not> IsPathSeparator sys c"
  shows "spec_ext (last_elem sys p) = spec_ext p"
proof (cases "CHR ''.'' \<in> set p")
  case True
  then obtain a b where p: "p = a @ CHR ''.'' # b" and b: "CHR ''.'' \<notin> set b"
    by (auto dest: split_list_last)
  have e: "spec_ext p = CHR ''.'' # b" using p b by (simp add: spec_ext_split)
  have "\<forall>c\<in>set (CHR ''.'' # b). \<not> IsPathSeparator sys c"
    using assms e by simp
  then have "last_elem sys p = last_elem sys a @ CHR ''.'' # b"
    unfolding p by (rule last_elem_append)
  then show ?thesis using e b by (simp add: spec_ext_split)
next
  case False
  then have "CHR ''.'' \<notin> set (last_elem sys p)" using last_elem_subset by fastforce
  with False show ?thesis by (simp add: spec_ext_def)
qed

text \<open>
  C7 (as amended). The extension \<open>E\<close> that the program uses is the one of the last path
  element: the substring from the last dot that follows the last path separator to the end,
  empty when the last element has no dot. The output path is the input path without that
  trailing \<open>E\<close>, then \<open>_greyscale\<close>, then \<open>E\<close>. When no path separator follows the last
  dot of the path, this is the specification's path.
\<close>

theorem outputFilename_ext:
  "Ext sys p = spec_ext (last_elem sys p)
   \<and> outputFilename sys p =
       take (length p - length (Ext sys p)) p @ ''_greyscale'' @ Ext sys p
   \<and> ((\<forall>c\<in>set (spec_ext p). \<not> IsPathSeparator sys c) \<longrightarrow>
        outputFilename sys p = spec_output p)"
proof (intro conjI impI)
  show "Ext sys p = spec_ext (last_elem sys p)" by (rule Ext_eq)
  show o: "outputFilename sys p =
       take (length p - length (Ext sys p)) p @ ''_greyscale'' @ Ext sys p"
    by (simp add: outputFilename_def Let_def TrimSuffix_Ext)
  assume "\<forall>c\<in>set (spec_ext p). \<not> IsPathSeparator sys c"
  then have "Ext sys p = spec_ext p" by (simp add: Ext_eq spec_ext_last_elem)
  then show "outputFilename sys p = spec_output p"
    by (simp add: o spec_output_def spec_base_def)
qed

theorem outputFilename_ext_witness:
  "spec_ext ''photo.jpg'' = ''.jpg''
   \<and> list_all (\<lambda>c. \<not> IsPathSeparator Unix c) (spec_ext ''photo.jpg'')
   \<and> outputFilename Unix ''photo.jpg'' = ''photo_greyscale.jpg''
   \<and> spec_output ''photo.jpg'' = ''photo_greyscale.jpg''
   \<and> Ext Unix ''photo.jpg'' = ''.jpg''"
  using outputFilename_ext [of Unix "''photo.jpg''"]
  by (simp add: spec_ext_def spec_output_def spec_base_def IsPathSeparator_def last_elem_def)

text \<open>
  C7 as stated fails where a path separator follows the last dot: for \<open>a.b/c\<close> the program
  appends \<open>_greyscale\<close> to the whole path, the specification's formula splits at the dot
  of the directory name.
\<close>

theorem outputFilename_spec_counterexample:
  "outputFilename Unix ''a.b/c'' = ''a.b/c_greyscale''
   \<and> spec_output ''a.b/c'' = ''a_greyscale.b/c''
   \<and> outputFilename Unix ''a.b/c'' \<noteq> spec_output ''a.b/c''"
  by code_simp

section \<open>Rounding to binary64: error bounds\<close>

lemma expo_bounds:
  fixes x :: rat
  assumes "0 < x"
  shows "2 powi (expo x) \<le> x \<and> x < 2 powi (expo x + 1)"
proof -
  obtain p q where pq: "quotient_of x = (p, q)" by force
  have q: "0 < q" using pq by (rule quotient_of_denom_pos)
  have x: "x = of_int p / of_int q" using pq by (rule quotient_of_div)
  have p: "0 < p" using assms q unfolding x by (simp add: zero_less_divide_iff)
  define bp where "bp = bitlen p"
  define bq where "bq = bitlen q"
  have bp1: "1 \<le> bp" using p by (simp add: bp_def bitlen_alt_def)
  have bq1: "1 \<le> bq" using q by (simp add: bq_def bitlen_alt_def)
  have pb: "(2::int) ^ nat (bp - 1) \<le> p" "p < 2 ^ nat bp"
    using bitlen_bounds [OF p] by (simp_all add: bp_def)
  have qb: "(2::int) ^ nat (bq - 1) \<le> q" "q < 2 ^ nat bq"
    using bitlen_bounds [OF q] by (simp_all add: bq_def)
  have pr: "(2::rat) powi (bp - 1) \<le> of_int p" "(of_int p :: rat) < 2 powi bp"
  proof -
    have "(of_int ((2::int) ^ nat (bp - 1)) :: rat) \<le> of_int p"
      using pb(1) by (simp only: of_int_le_iff)
    then show "(2::rat) powi (bp - 1) \<le> of_int p"
      using bp1 by (simp add: power_int_nonneg_exp)
    have "(of_int p :: rat) < of_int ((2::int) ^ nat bp)"
      using pb(2) by (simp only: of_int_less_iff)
    then show "(of_int p :: rat) < 2 powi bp"
      using bp1 by (simp add: power_int_nonneg_exp)
  qed
  have qr: "(2::rat) powi (bq - 1) \<le> of_int q" "(of_int q :: rat) < 2 powi bq"
  proof -
    have "(of_int ((2::int) ^ nat (bq - 1)) :: rat) \<le> of_int q"
      using qb(1) by (simp only: of_int_le_iff)
    then show "(2::rat) powi (bq - 1) \<le> of_int q"
      using bq1 by (simp add: power_int_nonneg_exp)
    have "(of_int q :: rat) < of_int ((2::int) ^ nat bq)"
      using qb(2) by (simp only: of_int_less_iff)
    then show "(of_int q :: rat) < 2 powi bq"
      using bq1 by (simp add: power_int_nonneg_exp)
  qed
  have qpos: "(0::rat) < of_int q" using q by simp
  have up: "x < 2 powi (bp - bq + 1)"
  proof -
    have "of_int p < (2::rat) powi bp" by (rule pr(2))
    also have "\<dots> = 2 powi (bp - bq + 1) * 2 powi (bq - 1)"
      by (simp flip: power_int_add)
    also have "\<dots> \<le> 2 powi (bp - bq + 1) * of_int q"
      using qr(1) by (intro mult_left_mono) simp_all
    finally show ?thesis using qpos unfolding x by (simp add: pos_divide_less_eq)
  qed
  have lo: "2 powi (bp - bq - 1) \<le> x"
  proof -
    have "2 powi (bp - bq - 1) * of_int q \<le> 2 powi (bp - bq - 1) * (2::rat) powi bq"
      using qr(2) by (intro mult_left_mono) simp_all
    also have "\<dots> = 2 powi (bp - 1)"
      by (simp flip: power_int_add)
    also have "\<dots> \<le> of_int p" by (rule pr(1))
    finally show ?thesis using qpos unfolding x by (simp add: pos_le_divide_eq)
  qed
  have ex: "expo x = (if 2 powi (bp - bq) \<le> x then bp - bq else bp - bq - 1)"
    using assms pq by (simp add: expo_def bp_def bq_def Let_def)
  show ?thesis
  proof (cases "2 powi (bp - bq) \<le> x")
    case True
    then show ?thesis using up ex by simp
  next
    case False
    then show ?thesis using lo ex by simp
  qed
qed

lemma rne_err: "\<bar>of_int (rne t) - t\<bar> \<le> 1 / 2"
proof -
  have "of_int \<lfloor>t\<rfloor> \<le> t" "t < of_int \<lfloor>t\<rfloor> + 1" by linarith+
  then show ?thesis
    unfolding rne_def Let_def by (auto simp: abs_le_iff)
qed

lemma round64_err:
  fixes x :: rat
  assumes "0 \<le> x" "x < 1024"
  shows "\<bar>round64 x - x\<bar> \<le> 1 / 17592186044416"
proof (cases "x = 0")
  case True
  then show ?thesis by (simp add: round64_def)
next
  case False
  then have pos: "0 < x" using assms by simp
  define k where "k = max (expo x) (- 1022) - 52"
  define u :: rat where "u = 2 powi k"
  have upos: "0 < u" by (simp add: u_def)
  have "(2::rat) powi (expo x) < 2 powi 10"
    using expo_bounds [OF pos] assms(2) by simp
  then have "expo x < 10"
    by (intro power_int_le_imp_less_exp [of 2]) simp_all
  then have k: "k \<le> - 43" by (simp add: k_def)
  have "u \<le> 2 powi (- 43)"
    unfolding u_def using k by (intro power_int_increasing) simp_all
  then have ub: "u \<le> 1 / 2 ^ 43" by (simp add: power_int_minus_divide)
  have r: "round64 x = of_int (rne (x / u)) * u"
    using False by (simp add: round64_def u_def k_def Let_def)
  have "round64 x - x = (of_int (rne (x / u)) - x / u) * u"
    using upos by (simp add: r field_simps)
  then have "\<bar>round64 x - x\<bar> = \<bar>of_int (rne (x / u)) - x / u\<bar> * u"
    using upos by (simp add: abs_mult)
  also have "\<dots> \<le> 1 / 2 * u"
    using upos rne_err [of "x / u"] by (intro mult_right_mono) simp_all
  also have "\<dots> \<le> 1 / 2 * (1 / 2 ^ 43)"
    using ub by simp
  finally show ?thesis by simp
qed


lemma round64_nonneg: "0 \<le> x \<Longrightarrow> 0 \<le> round64 x"
proof -
  assume x: "0 \<le> x"
  have "0 \<le> rne t" if "0 \<le> t" for t :: rat
  proof -
    have "0 \<le> \<lfloor>t\<rfloor>" using that by simp
    then show ?thesis unfolding rne_def Let_def by auto
  qed
  then show ?thesis
    using x by (simp add: round64_def Let_def)
qed

lemma const_near:
  assumes "0 \<le> k" "k < 1024"
  shows "\<bar>round64 k - k\<bar> \<le> 1 / 17592186044416 \<and> 0 \<le> round64 k"
  using round64_err [OF assms] round64_nonneg [OF assms(1)] by simp

lemma prod_near:
  fixes c k n :: rat
  assumes "\<bar>c - k\<bar> \<le> 1 / 17592186044416" "0 \<le> n" "n \<le> 255"
  shows "\<bar>c * n - k * n\<bar> \<le> 255 / 17592186044416"
proof -
  have "\<bar>c * n - k * n\<bar> = \<bar>c - k\<bar> * n"
    using assms(2) by (simp add: abs_mult flip: left_diff_distrib)
  also have "\<dots> \<le> 1 / 17592186044416 * 255"
    using assms by (intro mult_mono) simp_all
  finally show ?thesis by simp
qed

lemma luminosity_err:
  fixes r g b :: rat
  assumes r: "0 \<le> r" "r \<le> 255" and g: "0 \<le> g" "g \<le> 255" and b: "0 \<le> b" "b \<le> 255"
  shows "\<bar>luminosity m r g b - (299 / 1000 * r + 587 / 1000 * g + 114 / 1000 * b)\<bar>
           \<le> 1 / 17179869184"
    and "0 \<le> luminosity m r g b"
proof -
  have c1: "\<bar>c299 - 299 / 1000\<bar> \<le> 1 / 17592186044416" "0 \<le> c299"
    using const_near [of "299 / 1000"] by (simp_all add: c299_def)
  have c2: "\<bar>c587 - 587 / 1000\<bar> \<le> 1 / 17592186044416" "0 \<le> c587"
    using const_near [of "587 / 1000"] by (simp_all add: c587_def)
  have c3: "\<bar>c114 - 114 / 1000\<bar> \<le> 1 / 17592186044416" "0 \<le> c114"
    using const_near [of "114 / 1000"] by (simp_all add: c114_def)
  define P1 where "P1 = c299 * r"
  define P2 where "P2 = c587 * g"
  define P3 where "P3 = c114 * b"
  have p1: "\<bar>P1 - 299 / 1000 * r\<bar> \<le> 255 / 17592186044416" "0 \<le> P1"
    using prod_near [OF c1(1) r] c1(2) r(1) by (simp_all add: P1_def)
  have p2: "\<bar>P2 - 587 / 1000 * g\<bar> \<le> 255 / 17592186044416" "0 \<le> P2"
    using prod_near [OF c2(1) g] c2(2) g(1) by (simp_all add: P2_def)
  have p3: "\<bar>P3 - 114 / 1000 * b\<bar> \<le> 255 / 17592186044416" "0 \<le> P3"
    using prod_near [OF c3(1) b] c3(2) b(1) by (simp_all add: P3_def)
  have P1u: "P1 < 100" using p1 r by linarith
  have P2u: "P2 < 200" using p2 g by linarith
  have P3u: "P3 < 100" using p3 b by linarith
  define Q1 where "Q1 = round64 P1"
  define Q2 where "Q2 = round64 P2"
  define Q3 where "Q3 = round64 P3"
  have q1: "\<bar>Q1 - P1\<bar> \<le> 1 / 17592186044416" "0 \<le> Q1"
    using round64_err [of P1] round64_nonneg [of P1] p1(2) P1u by (simp_all add: Q1_def)
  have q2: "\<bar>Q2 - P2\<bar> \<le> 1 / 17592186044416" "0 \<le> Q2"
    using round64_err [of P2] round64_nonneg [of P2] p2(2) P2u by (simp_all add: Q2_def)
  have q3: "\<bar>Q3 - P3\<bar> \<le> 1 / 17592186044416" "0 \<le> Q3"
    using round64_err [of P3] round64_nonneg [of P3] p3(2) P3u by (simp_all add: Q3_def)
  define s where "s = (case fst m of
                 No_FMA \<Rightarrow> fadd (fmul c299 r) (fmul c587 g)
               | FMA_first \<Rightarrow> fma c299 r (fmul c587 g)
               | FMA_second \<Rightarrow> fma c587 g (fmul c299 r))"
  have s: "\<bar>s - (299 / 1000 * r + 587 / 1000 * g)\<bar> \<le> 513 / 17592186044416 \<and> 0 \<le> s"
  proof (cases "fst m")
    case No_FMA
    have e: "s = round64 (Q1 + Q2)"
      using No_FMA by (simp add: s_def fadd_def fmul_def Q1_def Q2_def P1_def P2_def)
    have a: "0 \<le> Q1 + Q2" "Q1 + Q2 < 1024" using q1 q2 P1u P2u by linarith+
    show ?thesis
      unfolding e using round64_err [OF a] round64_nonneg [OF a(1)] q1 q2 p1 p2
      by linarith
  next
    case FMA_first
    have e: "s = round64 (P1 + Q2)"
      using FMA_first by (simp add: s_def fma_def fmul_def Q2_def P1_def P2_def)
    have a: "0 \<le> P1 + Q2" "P1 + Q2 < 1024" using p1 q2 P1u P2u by linarith+
    show ?thesis
      unfolding e using round64_err [OF a] round64_nonneg [OF a(1)] q2 p1 p2
      by linarith
  next
    case FMA_second
    have e: "s = round64 (P2 + Q1)"
      using FMA_second by (simp add: s_def fma_def fmul_def Q1_def P1_def P2_def)
    have a: "0 \<le> P2 + Q1" "P2 + Q1 < 1024" using p2 q1 P1u P2u by linarith+
    show ?thesis
      unfolding e using round64_err [OF a] round64_nonneg [OF a(1)] q1 p1 p2
      by linarith
  qed
  have s1: "\<bar>s - (299 / 1000 * r + 587 / 1000 * g)\<bar> \<le> 513 / 17592186044416"
    and s2: "0 \<le> s" using s by simp_all
  have su: "s < 400" using s1 r g by linarith
  have l: "luminosity m r g b = (if snd m then round64 (P3 + s) else round64 (s + Q3))"
    by (simp add: luminosity_def s_def fma_def fadd_def fmul_def Q3_def P3_def Let_def)
  have fin: "\<bar>luminosity m r g b - (299 / 1000 * r + 587 / 1000 * g + 114 / 1000 * b)\<bar>
          \<le> 770 / 17592186044416 \<and> 0 \<le> luminosity m r g b"
  proof (cases "snd m")
    case True
    have e: "luminosity m r g b = round64 (P3 + s)" using True l by simp
    have a: "0 \<le> P3 + s" "P3 + s < 1024" using s2 p3 su P3u by linarith+
    show ?thesis
      unfolding e using round64_err [OF a] round64_nonneg [OF a(1)] s1 p3
      by linarith
  next
    case False
    have e: "luminosity m r g b = round64 (s + Q3)" using False l by simp
    have a: "0 \<le> s + Q3" "s + Q3 < 1024" using s2 q3 su P3u by linarith+
    show ?thesis
      unfolding e using round64_err [OF a] round64_nonneg [OF a(1)] s1 q3 p3
      by linarith
  qed
  show "\<bar>luminosity m r g b - (299 / 1000 * r + 587 / 1000 * g + 114 / 1000 * b)\<bar>
           \<le> 1 / 17179869184"
    using fin by linarith
  show "0 \<le> luminosity m r g b" using fin by simp
qed

section \<open>The grey value\<close>

lemma float64_of_uint8_range:
  "0 \<le> float64_of_uint8 w \<and> float64_of_uint8 w \<le> 255"
proof -
  have "unat w < 256" using unsigned_less [of w] by simp
  then have "unat w \<le> 255" by simp
  then have b: "(of_nat (unat w) :: rat) \<le> of_nat 255" by (simp only: of_nat_le_iff)
  have a: "(0::rat) \<le> of_nat (unat w)" by (rule of_nat_0_le_iff)
  have c: "(of_nat 255 :: rat) = 255" by simp
  show ?thesis
    unfolding float64_of_uint8_def using a b [unfolded c] by (intro conjI)
qed

lemma rounded_range:
  fixes c :: color_RGBA and m :: fma_choice
  defines "l \<equiv> luminosity m (float64_of_uint8 (R c)) (float64_of_uint8 (G c))
                      (float64_of_uint8 (B c))"
  shows "0 \<le> l" and "0 \<le> \<lfloor>l + 1 / 2\<rfloor>" and "\<lfloor>l + 1 / 2\<rfloor> \<le> 255"
proof -
  note rg = float64_of_uint8_range
  have e: "\<bar>l - (299 / 1000 * float64_of_uint8 (R c) + 587 / 1000 * float64_of_uint8 (G c)
              + 114 / 1000 * float64_of_uint8 (B c))\<bar> \<le> 1 / 17179869184"
    and l0: "0 \<le> l"
    unfolding l_def using rg by (intro luminosity_err; simp)+
  have "float64_of_uint8 (R c) \<le> 255" "float64_of_uint8 (G c) \<le> 255"
    "float64_of_uint8 (B c) \<le> 255" using rg by simp_all
  then have "l \<le> 255 + 1 / 17179869184"
    using e by linarith
  then have "l + 1 / 2 < 256" by linarith
  then have "\<lfloor>l + 1 / 2\<rfloor> < 256" by (simp add: floor_less_iff)
  then show "\<lfloor>l + 1 / 2\<rfloor> \<le> 255" by simp
  show "0 \<le> l" by (rule l0)
  then show "0 \<le> \<lfloor>l + 1 / 2\<rfloor>" by simp
qed

lemma greyValue_floor:
  "greyValue m c =
     word_of_int \<lfloor>luminosity m (float64_of_uint8 (R c)) (float64_of_uint8 (G c))
                      (float64_of_uint8 (B c)) + 1 / 2\<rfloor>"
proof -
  define l where "l = luminosity m (float64_of_uint8 (R c)) (float64_of_uint8 (G c))
                      (float64_of_uint8 (B c))"
  note r = rounded_range [of m c, folded l_def]
  have n: "\<not> (of_int \<lfloor>l + 1 / 2\<rfloor> :: rat) < 0" using r(2) by simp
  have mr: "math_Round l = of_int \<lfloor>l + 1 / 2\<rfloor>"
    using r(1) by (simp add: math_Round_def)
  have "uint8_of_float64 (of_int \<lfloor>l + 1 / 2\<rfloor>) = word_of_int \<lfloor>l + 1 / 2\<rfloor>"
    using n r(2,3) by (simp add: uint8_of_float64_def Let_def)
  then show ?thesis by (simp add: greyValue_def l_def [symmetric] Let_def mr)
qed

lemma greyValue_int:
  fixes c :: color_RGBA and m :: fma_choice
  defines "l \<equiv> luminosity m (float64_of_uint8 (R c)) (float64_of_uint8 (G c))
                      (float64_of_uint8 (B c))"
  shows "0 \<le> \<lfloor>l + 1 / 2\<rfloor> \<and> \<lfloor>l + 1 / 2\<rfloor> \<le> 255
         \<and> math_Round l = of_int \<lfloor>l + 1 / 2\<rfloor>
         \<and> uint (greyValue m c) = \<lfloor>l + 1 / 2\<rfloor>"
proof -
  note rg = float64_of_uint8_range
  have e: "\<bar>l - (299 / 1000 * float64_of_uint8 (R c) + 587 / 1000 * float64_of_uint8 (G c)
              + 114 / 1000 * float64_of_uint8 (B c))\<bar> \<le> 1 / 17179869184"
    and l0: "0 \<le> l"
    unfolding l_def using rg by (intro luminosity_err; simp)+
  have "float64_of_uint8 (R c) \<le> 255" "float64_of_uint8 (G c) \<le> 255"
    "float64_of_uint8 (B c) \<le> 255" using rg by simp_all
  then have "l \<le> 255 + 1 / 17179869184"
    using e by linarith
  then have "l + 1 / 2 < 256" by linarith
  then have u: "\<lfloor>l + 1 / 2\<rfloor> < 256" by (simp add: floor_less_iff)
  have z: "0 \<le> \<lfloor>l + 1 / 2\<rfloor>" using l0 by simp
  have "uint (word_of_int \<lfloor>l + 1 / 2\<rfloor> :: 8 word) = \<lfloor>l + 1 / 2\<rfloor>"
    using z u by (simp add: uint_word_of_int take_bit_int_eq_self)
  then have "uint (greyValue m c) = \<lfloor>l + 1 / 2\<rfloor>"
    by (simp add: greyValue_floor l_def)
  moreover have "math_Round l = of_int \<lfloor>l + 1 / 2\<rfloor>"
    using l0 by (simp add: math_Round_def)
  ultimately show ?thesis using z u by simp
qed

lemma greyValue_grey:
  assumes "R c = g" "G c = g" "B c = g"
  shows "greyValue m c = g"
proof -
  define l where "l = luminosity m (float64_of_uint8 g) (float64_of_uint8 g)
                      (float64_of_uint8 g)"
  define v where "v = float64_of_uint8 g"
  have "\<bar>l - (299 / 1000 * v + 587 / 1000 * v + 114 / 1000 * v)\<bar> \<le> 1 / 17179869184"
    unfolding l_def v_def using float64_of_uint8_range by (intro luminosity_err(1)) simp_all
  then have e: "\<bar>l - v\<bar> \<le> 1 / 17179869184" by simp
  have v: "v = of_int (uint g)" by (simp add: v_def float64_of_uint8_def)
  have "of_int (uint g) \<le> l + 1 / 2" "l + 1 / 2 < of_int (uint g) + 1"
    using e unfolding v by linarith+
  then have "\<lfloor>l + 1 / 2\<rfloor> = uint g" by (simp add: floor_unique)
  then have "greyValue m c = word_of_int (uint g)"
    using assms by (simp add: greyValue_floor l_def)
  then show ?thesis by simp
qed

lemma greyValue_le:
  assumes "R c \<le> a" "G c \<le> a" "B c \<le> a"
  shows "greyValue m c \<le> a"
proof -
  define l where "l = luminosity m (float64_of_uint8 (R c)) (float64_of_uint8 (G c))
                      (float64_of_uint8 (B c))"
  have le: "float64_of_uint8 w \<le> float64_of_uint8 a" if "w \<le> a" for w
  proof -
    have "unat w \<le> unat a" using that by (simp add: word_le_nat_alt)
    then show ?thesis unfolding float64_of_uint8_def by (simp only: of_nat_le_iff)
  qed
  note rg = float64_of_uint8_range
  have e: "\<bar>l - (299 / 1000 * float64_of_uint8 (R c) + 587 / 1000 * float64_of_uint8 (G c)
              + 114 / 1000 * float64_of_uint8 (B c))\<bar> \<le> 1 / 17179869184"
    unfolding l_def using rg by (intro luminosity_err(1)) simp_all
  have "l \<le> float64_of_uint8 a + 1 / 17179869184"
    using e le [OF assms(1)] le [OF assms(2)] le [OF assms(3)] by linarith
  then have "l + 1 / 2 < of_nat (unat a) + 1"
    unfolding float64_of_uint8_def by linarith
  also have "(of_nat (unat a) + 1 :: rat) = of_int (int (unat a) + 1)"
    by (simp only: of_int_add of_int_of_nat_eq of_int_1)
  finally have "\<lfloor>l + 1 / 2\<rfloor> < int (unat a) + 1" by (simp only: floor_less_iff)
  then have "\<lfloor>l + 1 / 2\<rfloor> \<le> uint a" by simp
  then have "uint (greyValue m c) \<le> uint a"
    using greyValue_int [of m c] by (simp add: l_def)
  then show ?thesis by (simp add: word_le_def)
qed

lemma greyValue_eval:
  assumes "1000 * z - 499 \<le> 299 * uint (R c) + 587 * uint (G c) + 114 * uint (B c)"
    and "299 * uint (R c) + 587 * uint (G c) + 114 * uint (B c) \<le> 1000 * z + 499"
  shows "greyValue m c = word_of_int z"
proof -
  define l where "l = luminosity m (float64_of_uint8 (R c)) (float64_of_uint8 (G c))
                      (float64_of_uint8 (B c))"
  define s where "s = 299 * uint (R c) + 587 * uint (G c) + 114 * uint (B c)"
  have f: "float64_of_uint8 w = of_int (uint w)" for w
    by (simp add: float64_of_uint8_def)
  note rg = float64_of_uint8_range
  have B: "299 / 1000 * float64_of_uint8 (R c) + 587 / 1000 * float64_of_uint8 (G c)
              + 114 / 1000 * float64_of_uint8 (B c) = of_int s / 1000"
    by (simp add: f s_def)
  have e: "\<bar>l - of_int s / 1000\<bar> \<le> 1 / 17179869184"
    unfolding B [symmetric] l_def using rg by (intro luminosity_err(1)) simp_all
  have "(of_int (1000 * z - 499) :: rat) \<le> of_int s" "(of_int s :: rat) \<le> of_int (1000 * z + 499)"
    using assms unfolding s_def [symmetric] by (simp_all only: of_int_le_iff)
  then have "(1000 * of_int z - 499 :: rat) \<le> of_int s" "(of_int s :: rat) \<le> 1000 * of_int z + 499"
    by simp_all
  then have "of_int z \<le> l + 1 / 2" "l + 1 / 2 < of_int z + 1"
    using e by linarith+
  then have "\<lfloor>l + 1 / 2\<rfloor> = z" by (simp add: floor_unique)
  then show ?thesis by (simp add: greyValue_floor l_def)
qed

section \<open>Color conversion\<close>

lemma unat_widen: "unat (widen v) = 257 * unat v"
proof -
  define a :: "32 word" where "a = ucast v"
  have lt: "unat v < 256" using unsigned_less [of v] by simp
  then have "unat v < 2 ^ 32" by simp
  then have ua: "unat a = unat v"
    by (simp add: a_def unsigned_ucast_eq take_bit_nat_eq_self)
  have pb: "push_bit 8 a = a * 256" by (simp add: push_bit_eq_mult)
  have upb: "unat (push_bit 8 a) = 256 * unat v"
    unfolding pb using lt ua by (simp add: unat_word_ariths)
  have dis: "a + push_bit 8 a = a OR push_bit 8 a"
  proof (rule disjunctive_add)
    fix n
    have "bit a n \<Longrightarrow> n < 8" by (auto simp: a_def bit_simps dest: bit_imp_le_length)
    moreover have "bit (push_bit 8 a) n \<Longrightarrow> 8 \<le> n" by (simp add: bit_simps)
    ultimately show "\<not> bit a n \<or> \<not> bit (push_bit 8 a) n" by fastforce
  qed
  have "unat (a + push_bit 8 a) = unat a + unat (push_bit 8 a)"
    using lt ua upb by (simp add: unat_word_ariths)
  then show ?thesis by (simp add: widen_def Let_def a_def [symmetric] dis [symmetric] ua upb)
qed

lemma high_byte: "unat (ucast (drop_bit 8 w :: 32 word) :: 8 word) = (unat w div 256) mod 256"
proof -
  have "unat (ucast (drop_bit 8 w :: 32 word) :: 8 word)
        = take_bit LENGTH(8) (unat (drop_bit 8 w))"
    by (rule unsigned_ucast_eq)
  also have "\<dots> = take_bit 8 (drop_bit 8 (unat w))"
    by (simp add: unat_drop_bit_eq del: drop_bit_eq_div)
  finally have "unat (ucast (drop_bit 8 w :: 32 word) :: 8 word)
        = take_bit 8 (drop_bit 8 (unat w))" .
  then show ?thesis by (simp add: take_bit_eq_mod drop_bit_eq_div)
qed

lemma high_byte_widen: "ucast (drop_bit 8 (widen v)) = v"
proof -
  have lt: "unat v < 256" using unsigned_less [of v] by simp
  have "unat (ucast (drop_bit 8 (widen v)) :: 8 word) = unat v"
    using lt by (simp add: high_byte unat_widen)
  then show ?thesis by (simp only: word_unat_eq_iff)
qed

lemma high_byte_mono:
  fixes r a :: "32 word"
  assumes "r \<le> a" "a \<le> 0xFFFF"
  shows "(ucast (drop_bit 8 r) :: 8 word) \<le> ucast (drop_bit 8 a)"
proof -
  have ra: "unat r \<le> unat a" using assms(1) by (simp add: word_le_nat_alt)
  have a: "unat a \<le> 65535" using assms(2) by (simp add: word_le_nat_alt)
  have "unat r div 256 \<le> unat a div 256" using ra by (rule div_le_mono)
  moreover have "unat a div 256 < 256" using a by simp
  ultimately show ?thesis
    by (simp add: word_le_nat_alt high_byte)
qed

lemma widen_mono: "widen r \<le> widen a \<Longrightarrow> r \<le> a"
  by (simp add: word_le_nat_alt unat_widen)

lemma rgbaModel_values:
  "rgbaModel c =
     (case Color_RGBA_values c of
        (r, g, b, a) \<Rightarrow> \<lparr>R = ucast (drop_bit 8 r), G = ucast (drop_bit 8 g),
                         B = ucast (drop_bit 8 b), A = ucast (drop_bit 8 a)\<rparr>)"
  by (cases c) (simp_all add: high_byte_widen)

lemma premultiplied_rgbaModel:
  assumes "premultiplied c"
  shows "R (rgbaModel c) \<le> A (rgbaModel c)" "G (rgbaModel c) \<le> A (rgbaModel c)"
    "B (rgbaModel c) \<le> A (rgbaModel c)"
proof -
  obtain r g b a where v: "Color_RGBA_values c = (r, g, b, a)"
    by (cases "Color_RGBA_values c") auto
  have le: "r \<le> a" "g \<le> a" "b \<le> a" "a \<le> 0xFFFF"
    using assms v by (simp_all add: premultiplied_def)
  show "R (rgbaModel c) \<le> A (rgbaModel c)" "G (rgbaModel c) \<le> A (rgbaModel c)"
    "B (rgbaModel c) \<le> A (rgbaModel c)"
    unfolding rgbaModel_values v using le by (simp_all add: high_byte_mono)
qed

lemma widen_values:
  "widen 200 = 0xC8C8" "widen 100 = 0x6464" "widen 50 = 0x3232" "widen 255 = 0xFFFF"
  "widen 0 = 0"
  by (simp_all add: widen_def)

text \<open>
  A \<open>color.NRGBA\<close> always satisfies the contract of \<open>RGBA()\<close>; its conversion is not
  the stored pixel: \<open>(200, 100, 50, 128)\<close> becomes \<open>(100, 50, 25, 128)\<close>.
\<close>

lemma unat_NRGBA_channel: "unat (NRGBA_channel c a) = (257 * unat c * unat a) div 255"
proof -
  have c: "unat c < 256" and a: "unat a < 256"
    using unsigned_less [of c] unsigned_less [of a] by simp_all
  have ua: "unat (ucast a :: 32 word) = unat a"
    using a by (simp add: unsigned_ucast_eq take_bit_nat_eq_self)
  define p where "p = unat c * unat a"
  have "p \<le> 255 * 255"
    unfolding p_def using c a by (intro mult_mono) simp_all
  then have "257 * p < 2 ^ 32" by simp
  moreover have "257 * unat c * unat a = 257 * p" by (simp add: p_def)
  ultimately have lt: "257 * unat c * unat a < 2 ^ 32" by (simp only:)
  have m: "unat (widen c * ucast a) = 257 * unat c * unat a"
    using lt by (simp add: unat_word_ariths unat_widen ua take_bit_nat_eq_self)
  show ?thesis
    by (simp add: NRGBA_channel_def unat_div m)
qed

lemma premultiplied_NRGBA: "premultiplied (Color_NRGBA r g b a)"
proof -
  have le: "NRGBA_channel c a \<le> widen a" for c
  proof -
    have "unat c < 256" using unsigned_less [of c] by simp
    then have "unat c \<le> 255" by simp
    then have "257 * unat c * unat a \<le> 255 * (257 * unat a)" by simp
    then have "(257 * unat c * unat a) div 255 \<le> 257 * unat a"
      by (metis div_le_mono nonzero_mult_div_cancel_left zero_neq_numeral)
    then show ?thesis by (simp add: word_le_nat_alt unat_NRGBA_channel unat_widen)
  qed
  have "unat a < 256" using unsigned_less [of a] by simp
  then have "unat a \<le> 255" by simp
  then have "widen a \<le> 0xFFFF" by (simp add: word_le_nat_alt unat_widen)
  then show ?thesis by (simp add: premultiplied_def Color_NRGBA_def le)
qed

lemma NRGBA_premultiplies:
  "rgbaModel (Color_NRGBA 200 100 50 128) = \<lparr>R = 100, G = 50, B = 25, A = 128\<rparr>"
  "rgbaModel (Color_NRGBA 10 20 30 0) = \<lparr>R = 0, G = 0, B = 0, A = 0\<rparr>"
  by (simp_all add: Color_NRGBA_def NRGBA_channel_def widen_def)

section \<open>Pixel buffers and the two loops\<close>

lemma wrap64_id: "- (2 ^ 63) \<le> v \<Longrightarrow> v < 2 ^ 63 \<Longrightarrow> wrap64 v = v"
  by (simp add: wrap64_def)

lemma wrap64_high: "2 ^ 63 \<le> v \<Longrightarrow> v < 2 ^ 64 \<Longrightarrow> wrap64 v = v - 2 ^ 64"
proof -
  assume a: "2 ^ 63 \<le> v" "v < 2 ^ 64"
  have "(v + 2 ^ 63) mod 2 ^ 64 = (v + 2 ^ 63 - 2 ^ 64) mod 2 ^ 64"
    by (metis minus_mod_self2)
  also have "\<dots> = v + 2 ^ 63 - 2 ^ 64"
    using a by (intro mod_pos_pos_trivial) simp_all
  finally show ?thesis by (simp add: wrap64_def)
qed

lemma wrap64_range: "is_int64 (wrap64 v)"
proof -
  have "0 \<le> (v + 2 ^ 63) mod (2 ^ 64 :: int)" "(v + 2 ^ 63) mod (2 ^ 64 :: int) < 2 ^ 64"
    by simp_all
  then show ?thesis unfolding is_int64_def wrap64_def by simp
qed

text \<open>The linear index of a pixel inside the rectangle.\<close>

lemma index_bounds:
  fixes w h dx dy :: int
  assumes "0 \<le> dx" "dx < w" "0 \<le> dy" "dy < h"
  shows "0 \<le> dy * w + dx" "dy * w + dx < w * h"
proof -
  have "0 \<le> dy * w" using assms by simp
  then show "0 \<le> dy * w + dx" using assms by simp
  have "dy * w \<le> (h - 1) * w" using assms by (intro mult_right_mono) simp_all
  then have "dy * w + dx < (h - 1) * w + w" using assms by linarith
  also have "\<dots> = w * h" by (simp add: algebra_simps)
  finally show "dy * w + dx < w * h" .
qed

lemma index_inj:
  fixes w dx dy dx' dy' :: int
  assumes "0 \<le> dx" "dx < w" "0 \<le> dx'" "dx' < w" "dy * w + dx = dy' * w + dx'"
  shows "dx = dx' \<and> dy = dy'"
proof -
  have "(dy * w + dx) mod w = dx" "(dy * w + dx) div w = dy"
    using assms(1,2) by simp_all
  moreover have "(dy' * w + dx') mod w = dx'" "(dy' * w + dx') div w = dy'"
    using assms(3,4) by simp_all
  ultimately show ?thesis using assms(5) by simp
qed

lemma PixOffset_valid:
  assumes v: "valid_RGBA p" and i: "Point_In \<lparr>X = x, Y = y\<rparr> (Rect p)"
  defines "w \<equiv> X (Max_pt (Rect p)) - X (Min_pt (Rect p))"
  defines "k \<equiv> (y - Y (Min_pt (Rect p))) * w + (x - X (Min_pt (Rect p)))"
  shows "PixOffset p x y = 4 * k" "0 \<le> k" "4 * k + 4 \<le> int (length (Pix p))"
proof -
  define h where "h = Y (Max_pt (Rect p)) - Y (Min_pt (Rect p))"
  define dx where "dx = x - X (Min_pt (Rect p))"
  define dy where "dy = y - Y (Min_pt (Rect p))"
  have d: "0 \<le> dx" "dx < w" "0 \<le> dy" "dy < h"
    using i by (simp_all add: Point_In_def dx_def dy_def w_def h_def)
  have len: "int (length (Pix p)) = 4 * (w * h)" and small: "4 * (w * h) < 2 ^ 63"
    and st: "Stride p = 4 * w"
    using v d unfolding valid_RGBA_def Let_def w_def h_def by auto
  have k: "k = dy * w + dx" by (simp add: k_def dx_def dy_def)
  have kb: "0 \<le> k" "k < w * h" unfolding k using index_bounds [OF d] by simp_all
  show "0 \<le> k" by (rule kb)
  show "4 * k + 4 \<le> int (length (Pix p))" using kb len by simp
  have "(y - Y (Min_pt (Rect p))) * Stride p + (x - X (Min_pt (Rect p))) * 4 = 4 * k"
    by (simp add: st k dx_def dy_def algebra_simps)
  moreover have "wrap64 (4 * k) = 4 * k"
  proof (rule wrap64_id)
    show "- (2 ^ 63) \<le> 4 * k" using kb(1) by simp
    have "4 * k < 4 * (w * h)" using kb(2) by simp
    then show "4 * k < 2 ^ 63" using small by (rule less_trans)
  qed
  ultimately show "PixOffset p x y = 4 * k" by (simp add: PixOffset_def)
qed

lemma PixOffset_inj:
  assumes v: "valid_RGBA p"
    and i: "Point_In \<lparr>X = x, Y = y\<rparr> (Rect p)" and i': "Point_In \<lparr>X = x', Y = y'\<rparr> (Rect p)"
    and e: "PixOffset p x y = PixOffset p x' y'"
  shows "x = x' \<and> y = y'"
proof -
  define w where "w = X (Max_pt (Rect p)) - X (Min_pt (Rect p))"
  have "(y - Y (Min_pt (Rect p))) * w + (x - X (Min_pt (Rect p)))
        = (y' - Y (Min_pt (Rect p))) * w + (x' - X (Min_pt (Rect p)))"
    using e PixOffset_valid(1) [OF v i] PixOffset_valid(1) [OF v i'] by (simp add: w_def)
  moreover have "0 \<le> x - X (Min_pt (Rect p))" "x - X (Min_pt (Rect p)) < w"
    "0 \<le> x' - X (Min_pt (Rect p))" "x' - X (Min_pt (Rect p)) < w"
    using i i' by (simp_all add: Point_In_def w_def)
  ultimately have "x - X (Min_pt (Rect p)) = x' - X (Min_pt (Rect p))
      \<and> y - Y (Min_pt (Rect p)) = y' - Y (Min_pt (Rect p))"
    by (intro index_inj [of _ w]) simp_all
  then show ?thesis by simp
qed

lemma put4_same:
  assumes "i + 4 \<le> length xs"
  shows "xs[i := a, i + 1 := b, i + 2 := c, i + 3 := d] ! i = a"
    "xs[i := a, i + 1 := b, i + 2 := c, i + 3 := d] ! (i + 1) = b"
    "xs[i := a, i + 1 := b, i + 2 := c, i + 3 := d] ! (i + 2) = c"
    "xs[i := a, i + 1 := b, i + 2 := c, i + 3 := d] ! (i + 3) = d"
  using assms by (simp_all add: nth_list_update)

lemma put4_other:
  assumes "j + 4 \<le> i \<or> i + 4 \<le> j"
  shows "xs[i := a, i + 1 := b, i + 2 := c, i + 3 := d] ! j = xs ! j"
    "xs[i := a, i + 1 := b, i + 2 := c, i + 3 := d] ! (j + 1) = xs ! (j + 1)"
    "xs[i := a, i + 1 := b, i + 2 := c, i + 3 := d] ! (j + 2) = xs ! (j + 2)"
    "xs[i := a, i + 1 := b, i + 2 := c, i + 3 := d] ! (j + 3) = xs ! (j + 3)"
  using assms by (auto simp: nth_list_update)

lemma RGBA_Set_outside:
  "\<not> Point_In \<lparr>X = x, Y = y\<rparr> (Rect p) \<Longrightarrow> RGBA_Set p x y c = Inr p"
  by (simp add: RGBA_Set_def)

lemma RGBA_Set_inside:
  assumes v: "valid_RGBA p" and i: "Point_In \<lparr>X = x, Y = y\<rparr> (Rect p)"
  shows "\<exists>p'. RGBA_Set p x y c = Inr p' \<and> valid_RGBA p' \<and> Rect p' = Rect p
           \<and> Stride p' = Stride p
           \<and> (\<forall>x' y'. RGBAAt p' x' y' =
                 (if x' = x \<and> y' = y then Inr (rgbaModel c) else RGBAAt p x' y'))"
proof -
  define w where "w = X (Max_pt (Rect p)) - X (Min_pt (Rect p))"
  define k where "k = (y - Y (Min_pt (Rect p))) * w + (x - X (Min_pt (Rect p)))"
  define n where "n = nat (4 * k)"
  note o = PixOffset_valid [OF v i, folded w_def, folded k_def]
  have n: "int n = 4 * k" "n + 4 \<le> length (Pix p)" using o by (simp_all add: n_def)
  define c1 where "c1 = rgbaModel c"
  define p' where "p' = p\<lparr>Pix := (Pix p)[n := R c1, n + 1 := G c1, n + 2 := B c1, n + 3 := A c1]\<rparr>"
  have s: "RGBA_Set p x y c = Inr p'"
    using i o by (simp add: RGBA_Set_def Let_def p'_def n_def c1_def)
  have r: "Rect p' = Rect p" "Stride p' = Stride p" "length (Pix p') = length (Pix p)"
    by (simp_all add: p'_def)
  have v': "valid_RGBA p'" using v by (simp add: valid_RGBA_def r)
  have "RGBAAt p' x' y' = (if x' = x \<and> y' = y then Inr (rgbaModel c) else RGBAAt p x' y')"
    for x' y'
  proof (cases "Point_In \<lparr>X = x', Y = y'\<rparr> (Rect p)")
    case False
    then have "\<not> (x' = x \<and> y' = y)" using i by auto
    then show ?thesis using False by (auto simp: RGBAAt_def r)
  next
    case True
    define k' where "k' = (y' - Y (Min_pt (Rect p))) * w + (x' - X (Min_pt (Rect p)))"
    define n' where "n' = nat (4 * k')"
    note o' = PixOffset_valid [OF v True, folded w_def, folded k'_def]
    have n': "int n' = 4 * k'" "n' + 4 \<le> length (Pix p)" using o' by (simp_all add: n'_def)
    have po: "PixOffset p' x' y' = 4 * k'" using o'(1) by (simp add: PixOffset_def r)
    have at': "RGBAAt p' x' y' = Inr \<lparr>R = Pix p' ! n', G = Pix p' ! (n' + 1),
                        B = Pix p' ! (n' + 2), A = Pix p' ! (n' + 3)\<rparr>"
      using True o' po by (simp add: RGBAAt_def r Let_def n'_def)
    have at: "RGBAAt p x' y' = Inr \<lparr>R = Pix p ! n', G = Pix p ! (n' + 1),
                        B = Pix p ! (n' + 2), A = Pix p ! (n' + 3)\<rparr>"
      using True o' by (simp add: RGBAAt_def Let_def n'_def)
    show ?thesis
    proof (cases "x' = x \<and> y' = y")
      case True
      then have nn: "n' = n" by (simp add: n'_def n_def k'_def k_def)
      have "Pix p' ! n = R c1" "Pix p' ! (n + 1) = G c1" "Pix p' ! (n + 2) = B c1"
        "Pix p' ! (n + 3) = A c1"
        using put4_same [OF n(2)] unfolding p'_def by simp_all
      then have "RGBAAt p' x' y' = Inr c1" unfolding at' nn by simp
      then show ?thesis using True by (simp add: c1_def)
    next
      case False
      have "PixOffset p x y \<noteq> PixOffset p x' y'"
        using PixOffset_inj [OF v i \<open>Point_In \<lparr>X = x', Y = y'\<rparr> (Rect p)\<close>] False by auto
      then have "k \<noteq> k'" using o(1) o'(1) by simp
      then have "n' + 4 \<le> n \<or> n + 4 \<le> n'" using n(1) n'(1) by linarith
      then have "Pix p' ! n' = Pix p ! n'" "Pix p' ! (n' + 1) = Pix p ! (n' + 1)"
        "Pix p' ! (n' + 2) = Pix p ! (n' + 2)" "Pix p' ! (n' + 3) = Pix p ! (n' + 3)"
        using put4_other [of n' n] unfolding p'_def by simp_all
      then have "RGBAAt p' x' y' = RGBAAt p x' y'" unfolding at at' by (simp only:)
      then show ?thesis by (simp only: False if_False)
    qed
  qed
  then show ?thesis using s v' r by blast
qed

lemma RGBA_Set_valid:
  assumes v: "valid_RGBA p"
  shows "\<exists>p'. RGBA_Set p x y c = Inr p' \<and> valid_RGBA p' \<and> Rect p' = Rect p
           \<and> Stride p' = Stride p
           \<and> (\<forall>x' y'. RGBAAt p' x' y' =
                 (if Point_In \<lparr>X = x, Y = y\<rparr> (Rect p) \<and> x' = x \<and> y' = y
                  then Inr (rgbaModel c) else RGBAAt p x' y'))"
proof (cases "Point_In \<lparr>X = x, Y = y\<rparr> (Rect p)")
  case True
  then show ?thesis using RGBA_Set_inside [OF v True, of c] by simp
next
  case False
  then show ?thesis using v by (simp add: RGBA_Set_outside)
qed


lemma loop_y_valid:
  "valid_RGBA p \<Longrightarrow>
   \<exists>p'. loop_y m src sz x y p = Inr p' \<and> valid_RGBA p' \<and> Rect p' = Rect p
      \<and> Stride p' = Stride p
      \<and> (\<forall>x' y'. RGBAAt p' x' y' =
            (if Point_In \<lparr>X = x', Y = y'\<rparr> (Rect p) \<and> x' = x \<and> y \<le> y' \<and> y' < Y sz
             then Inr (modifiedColor m (At src x' y')) else RGBAAt p x' y'))"
proof (induction m src sz x y p rule: loop_y.induct)
  case (1 m src sz x y p)
  show ?case
  proof (cases "y < Y sz")
    case False
    then have "loop_y m src sz x y p = Inr p" by (subst loop_y.simps) simp
    then show ?thesis using False "1.prems" by auto
  next
    case True
    obtain p1 where s: "RGBA_Set p x y (Color_RGBA (modifiedColor m (At src x y))) = Inr p1"
      and v1: "valid_RGBA p1" and r1: "Rect p1 = Rect p" "Stride p1 = Stride p"
      and a1: "\<And>x' y'. RGBAAt p1 x' y' =
                 (if Point_In \<lparr>X = x, Y = y\<rparr> (Rect p) \<and> x' = x \<and> y' = y
                  then Inr (modifiedColor m (At src x y)) else RGBAAt p x' y')"
      using RGBA_Set_valid [OF "1.prems", of x y "Color_RGBA (modifiedColor m (At src x y))"]
      by auto
    obtain p' where l: "loop_y m src sz x (y + 1) p1 = Inr p'"
      and v': "valid_RGBA p'" and r': "Rect p' = Rect p1" "Stride p' = Stride p1"
      and a': "\<And>x' y'. RGBAAt p' x' y' =
            (if Point_In \<lparr>X = x', Y = y'\<rparr> (Rect p1) \<and> x' = x \<and> y + 1 \<le> y' \<and> y' < Y sz
             then Inr (modifiedColor m (At src x' y')) else RGBAAt p1 x' y')"
      using "1.IH" [OF True s v1] by auto
    have e: "loop_y m src sz x y p = Inr p'"
      using True s l by (subst loop_y.simps) simp
    have "RGBAAt p' x' y' =
            (if Point_In \<lparr>X = x', Y = y'\<rparr> (Rect p) \<and> x' = x \<and> y \<le> y' \<and> y' < Y sz
             then Inr (modifiedColor m (At src x' y')) else RGBAAt p x' y')" for x' y'
    proof (cases "y' = y")
      case True
      then show ?thesis unfolding a' a1 r1 using \<open>y < Y sz\<close> by auto
    next
      case False
      then show ?thesis unfolding a' a1 r1 by auto
    qed
    then show ?thesis using e v' r' r1 by simp
  qed
qed

lemma loop_x_valid:
  "valid_RGBA p \<Longrightarrow>
   \<exists>p'. loop_x m src sz x p = Inr p' \<and> valid_RGBA p' \<and> Rect p' = Rect p
      \<and> Stride p' = Stride p
      \<and> (\<forall>x' y'. RGBAAt p' x' y' =
            (if Point_In \<lparr>X = x', Y = y'\<rparr> (Rect p) \<and> x \<le> x' \<and> x' < X sz
                \<and> 0 \<le> y' \<and> y' < Y sz
             then Inr (modifiedColor m (At src x' y')) else RGBAAt p x' y'))"
proof (induction m src sz x p rule: loop_x.induct)
  case (1 m src sz x p)
  show ?case
  proof (cases "x < X sz")
    case False
    then have "loop_x m src sz x p = Inr p" by (subst loop_x.simps) simp
    then show ?thesis using False "1.prems" by auto
  next
    case True
    obtain p1 where s: "loop_y m src sz x 0 p = Inr p1"
      and v1: "valid_RGBA p1" and r1: "Rect p1 = Rect p" "Stride p1 = Stride p"
      and a1: "\<And>x' y'. RGBAAt p1 x' y' =
            (if Point_In \<lparr>X = x', Y = y'\<rparr> (Rect p) \<and> x' = x \<and> 0 \<le> y' \<and> y' < Y sz
             then Inr (modifiedColor m (At src x' y')) else RGBAAt p x' y')"
      using loop_y_valid [OF "1.prems", of m src sz x 0] by auto
    obtain p' where l: "loop_x m src sz (x + 1) p1 = Inr p'"
      and v': "valid_RGBA p'" and r': "Rect p' = Rect p1" "Stride p' = Stride p1"
      and a': "\<And>x' y'. RGBAAt p' x' y' =
            (if Point_In \<lparr>X = x', Y = y'\<rparr> (Rect p1) \<and> x + 1 \<le> x' \<and> x' < X sz
                \<and> 0 \<le> y' \<and> y' < Y sz
             then Inr (modifiedColor m (At src x' y')) else RGBAAt p1 x' y')"
      using "1.IH" [OF True s v1] by auto
    have e: "loop_x m src sz x p = Inr p'"
      using True s l by (subst loop_x.simps) simp
    have "RGBAAt p' x' y' =
            (if Point_In \<lparr>X = x', Y = y'\<rparr> (Rect p) \<and> x \<le> x' \<and> x' < X sz
                \<and> 0 \<le> y' \<and> y' < Y sz
             then Inr (modifiedColor m (At src x' y')) else RGBAAt p x' y')" for x' y'
    proof (cases "x' = x")
      case True
      then show ?thesis unfolding a' a1 r1 using \<open>x < X sz\<close> by auto
    next
      case False
      then show ?thesis unfolding a' a1 r1 by auto
    qed
    then show ?thesis using e v' r' r1 by simp
  qed
qed

lemma mul3NonNeg_eq:
  "mul3NonNeg x y z =
     (if 0 \<le> x \<and> 0 \<le> y \<and> 0 \<le> z \<and> x * y < 2 ^ 64 \<and> x * y * z < 2 ^ 63
      then x * y * z else - 1)"
proof (cases "0 \<le> x \<and> 0 \<le> y \<and> 0 \<le> z")
  case False
  then show ?thesis by (auto simp: mul3NonNeg_def)
next
  case True
  then have xy: "0 \<le> x * y" and xyz: "0 \<le> x * y * z" by simp_all
  show ?thesis
  proof (cases "x * y < 2 ^ 64")
    case False
    then have "(x * y) div 2 ^ 64 \<noteq> 0"
      using xy by (simp add: div_eq_0_iff)
    then show ?thesis using True False by (simp add: mul3NonNeg_def Let_def)
  next
    case lt: True
    then have d: "(x * y) div 2 ^ 64 = 0" "(x * y) mod 2 ^ 64 = x * y"
      using xy by simp_all
    show ?thesis
    proof (cases "x * y * z < 2 ^ 64")
      case False
      then have "(x * y * z) div 2 ^ 64 \<noteq> 0"
        using xyz by (simp add: div_eq_0_iff)
      moreover have "\<not> x * y * z < 2 ^ 63" using False by simp
      ultimately show ?thesis using True lt d by (simp add: mul3NonNeg_def Let_def)
    next
      case lt': True
      then have d': "(x * y * z) div 2 ^ 64 = 0" "(x * y * z) mod 2 ^ 64 = x * y * z"
        using xyz by simp_all
      show ?thesis
      proof (cases "x * y * z < 2 ^ 63")
        case True
        then have "wrap64 (x * y * z) = x * y * z"
          using xyz by (intro wrap64_id) simp_all
        moreover have "\<not> x * y * z < 0" using xyz by linarith
        ultimately show ?thesis
          using \<open>0 \<le> x \<and> 0 \<le> y \<and> 0 \<le> z\<close> lt d d' True
          by (simp add: mul3NonNeg_def Let_def)
      next
        case False
        then have "wrap64 (x * y * z) = x * y * z - 2 ^ 64"
          using lt' by (intro wrap64_high) simp_all
        then have "wrap64 (x * y * z) < 0" using lt' by simp
        then show ?thesis
          using \<open>0 \<le> x \<and> 0 \<le> y \<and> 0 \<le> z\<close> lt d d' False
          by (simp add: mul3NonNeg_def Let_def)
      qed
    qed
  qed
qed

lemma NewRGBA_eq:
  "NewRGBA r =
     (if 0 \<le> Rectangle_Dx r \<and> 0 \<le> Rectangle_Dy r \<and> 4 * Rectangle_Dx r < 2 ^ 64
         \<and> 4 * Rectangle_Dx r * Rectangle_Dy r < 2 ^ 63
      then Inr \<lparr>Pix = replicate (nat (4 * Rectangle_Dx r * Rectangle_Dy r)) 0,
                Stride = wrap64 (4 * Rectangle_Dx r), Rect = r\<rparr>
      else Inl NewRGBA_panic)"
proof (cases "0 \<le> Rectangle_Dx r \<and> 0 \<le> Rectangle_Dy r \<and> 4 * Rectangle_Dx r < 2 ^ 64
         \<and> 4 * Rectangle_Dx r * Rectangle_Dy r < 2 ^ 63")
  case True
  then have "0 \<le> 4 * Rectangle_Dx r * Rectangle_Dy r" by simp
  then have n: "\<not> 4 * Rectangle_Dx r * Rectangle_Dy r < 0" by linarith
  have "mul3NonNeg 4 (Rectangle_Dx r) (Rectangle_Dy r) = 4 * Rectangle_Dx r * Rectangle_Dy r"
    unfolding mul3NonNeg_eq using True by simp
  then show ?thesis
    unfolding NewRGBA_def pixelBufferLength_def Let_def using True n by simp
next
  case False
  have "mul3NonNeg 4 (Rectangle_Dx r) (Rectangle_Dy r) = - 1"
    unfolding mul3NonNeg_eq using False by auto
  then show ?thesis
    unfolding NewRGBA_def pixelBufferLength_def Let_def using False
    by (simp add: NewRGBA_panic_def)
qed


lemma image_Rect_0:
  "image_Rect 0 0 sx sy =
     \<lparr>Min_pt = \<lparr>X = min 0 sx, Y = min 0 sy\<rparr>, Max_pt = \<lparr>X = max 0 sx, Y = max 0 sy\<rparr>\<rparr>"
  by (simp add: image_Rect_def min_def max_def)

lemma wrap64_span:
  assumes "0 \<le> v" "v \<le> 2 ^ 63" "0 \<le> wrap64 v"
  shows "wrap64 v = v" "v < 2 ^ 63"
proof -
  have "v < 2 ^ 63"
  proof (rule ccontr)
    assume "\<not> v < 2 ^ 63"
    then have "v = 2 ^ 63" using assms(2) by simp
    then have "wrap64 v = - (2 ^ 63)" by (simp add: wrap64_def)
    then show False using assms(3) by simp
  qed
  then show "v < 2 ^ 63" .
  then show "wrap64 v = v" using assms(1) by (intro wrap64_id) simp_all
qed

lemma NewRGBA_fresh:
  assumes sx: "is_int64 sx" and sy: "is_int64 sy"
    and new: "NewRGBA (image_Rect 0 0 sx sy) = Inr p"
  shows "valid_RGBA p" and "Rect p = image_Rect 0 0 sx sy"
    and "\<And>x y. RGBAAt p x y = Inr zero_RGBA"
    and "Rectangle_Dx (Rect p) = \<bar>sx\<bar>" and "Rectangle_Dy (Rect p) = \<bar>sy\<bar>"
    and "length (Pix p) = nat (4 * \<bar>sx\<bar> * \<bar>sy\<bar>)"
proof -
  define r where "r = image_Rect 0 0 sx sy"
  have wx: "X (Max_pt r) - X (Min_pt r) = \<bar>sx\<bar>" and wy: "Y (Max_pt r) - Y (Min_pt r) = \<bar>sy\<bar>"
    by (simp_all add: r_def image_Rect_0 min_def max_def)
  have bx: "\<bar>sx\<bar> \<le> 2 ^ 63" and bny: "\<bar>sy\<bar> \<le> 2 ^ 63"
    using sx sy by (simp_all add: is_int64_def abs_le_iff)
  have dx: "Rectangle_Dx r = wrap64 \<bar>sx\<bar>" and dy: "Rectangle_Dy r = wrap64 \<bar>sy\<bar>"
    by (simp_all add: Rectangle_Dx_def Rectangle_Dy_def wx wy)
  have ok: "0 \<le> Rectangle_Dx r \<and> 0 \<le> Rectangle_Dy r \<and> 4 * Rectangle_Dx r < 2 ^ 64
         \<and> 4 * Rectangle_Dx r * Rectangle_Dy r < 2 ^ 63"
    and p: "p = \<lparr>Pix = replicate (nat (4 * Rectangle_Dx r * Rectangle_Dy r)) 0,
                Stride = wrap64 (4 * Rectangle_Dx r), Rect = r\<rparr>"
    using new unfolding r_def [symmetric] NewRGBA_eq by (auto split: if_splits)
  have ex: "Rectangle_Dx r = \<bar>sx\<bar>" using wrap64_span(1) [OF _ bx] ok dx by simp
  have ey: "Rectangle_Dy r = \<bar>sy\<bar>" using wrap64_span(1) [OF _ bny] ok dy by simp
  have small: "4 * (\<bar>sx\<bar> * \<bar>sy\<bar>) < 2 ^ 63" using ok ex ey by (simp add: mult.assoc)
  have st: "\<bar>sy\<bar> = 0 \<or> Stride p = 4 * \<bar>sx\<bar>"
  proof (cases "\<bar>sy\<bar> = 0")
    case False
    then have "1 \<le> \<bar>sy\<bar>" by simp
    then have "\<bar>sx\<bar> * 1 \<le> \<bar>sx\<bar> * \<bar>sy\<bar>" by (intro mult_left_mono) simp_all
    then have "4 * \<bar>sx\<bar> < 2 ^ 63" using small by simp
    then have "wrap64 (4 * \<bar>sx\<bar>) = 4 * \<bar>sx\<bar>" by (intro wrap64_id) simp_all
    then show ?thesis by (simp add: p ex)
  qed simp
  show v: "valid_RGBA p"
    unfolding valid_RGBA_def Let_def using st small
    by (simp add: p wx wy ex ey mult.assoc)
  show "Rect p = image_Rect 0 0 sx sy" by (simp add: p r_def)
  show "Rectangle_Dx (Rect p) = \<bar>sx\<bar>" by (simp add: p ex)
  show "Rectangle_Dy (Rect p) = \<bar>sy\<bar>" by (simp add: p ey)
  show "length (Pix p) = nat (4 * \<bar>sx\<bar> * \<bar>sy\<bar>)" by (simp add: p ex ey)
  show "RGBAAt p x y = Inr zero_RGBA" for x y
  proof (cases "Point_In \<lparr>X = x, Y = y\<rparr> (Rect p)")
    case False
    then show ?thesis by (simp add: RGBAAt_def zero_RGBA_def)
  next
    case True
    define k where "k = (y - Y (Min_pt (Rect p))) * (X (Max_pt (Rect p)) - X (Min_pt (Rect p)))
                        + (x - X (Min_pt (Rect p)))"
    note o = PixOffset_valid [OF v True, folded k_def]
    define n where "n = nat (4 * k)"
    have n: "n + 4 \<le> length (Pix p)" using o by (simp add: n_def)
    have z: "Pix p ! j = 0" if "j < length (Pix p)" for j
      using that by (simp add: p)
    have "Pix p ! n = 0" "Pix p ! (n + 1) = 0" "Pix p ! (n + 2) = 0" "Pix p ! (n + 3) = 0"
      using n by (simp_all add: z)
    then show ?thesis
      using True o by (simp add: RGBAAt_def Let_def n_def zero_RGBA_def)
  qed
qed

lemma Size_int64:
  "is_int64 (X (Rectangle_Size b))" "is_int64 (Y (Rectangle_Size b))"
  by (simp_all add: Rectangle_Size_def Point_Sub_def wrap64_range)

lemma Size_Dx_Dy:
  "X (Rectangle_Size b) = Rectangle_Dx b" "Y (Rectangle_Size b) = Rectangle_Dy b"
  by (simp_all add: Rectangle_Size_def Point_Sub_def Rectangle_Dx_def Rectangle_Dy_def)

lemma toGreyscale_Inl:
  assumes "NewRGBA (image_Rect 0 0 (Rectangle_Dx (Bounds src)) (Rectangle_Dy (Bounds src))) = Inl e"
  shows "toGreyscale m src = Inl e"
  using assms by (simp add: toGreyscale_def Let_def Size_Dx_Dy)

lemma toGreyscale_Inr:
  assumes new: "NewRGBA (image_Rect 0 0 (Rectangle_Dx (Bounds src)) (Rectangle_Dy (Bounds src)))
                = Inr p"
  shows "\<exists>out. toGreyscale m src = Inr out \<and> valid_RGBA out
           \<and> Rect out = Rect p \<and> Stride out = Stride p
           \<and> (\<forall>x y. RGBAAt out x y =
                 (if 0 \<le> x \<and> x < Rectangle_Dx (Bounds src)
                     \<and> 0 \<le> y \<and> y < Rectangle_Dy (Bounds src)
                  then Inr (modifiedColor m (At src x y)) else Inr zero_RGBA))"
proof -
  define sz where "sz = Rectangle_Size (Bounds src)"
  have sz: "X sz = Rectangle_Dx (Bounds src)" "Y sz = Rectangle_Dy (Bounds src)"
    by (simp_all add: sz_def Size_Dx_Dy)
  have i: "is_int64 (X sz)" "is_int64 (Y sz)" by (simp_all add: sz_def Size_int64)
  have new': "NewRGBA (image_Rect 0 0 (X sz) (Y sz)) = Inr p" using new by (simp add: sz)
  note f = NewRGBA_fresh [OF i new']
  obtain out where l: "loop_x m src sz 0 p = Inr out"
    and v: "valid_RGBA out" and r: "Rect out = Rect p" "Stride out = Stride p"
    and a: "\<And>x' y'. RGBAAt out x' y' =
            (if Point_In \<lparr>X = x', Y = y'\<rparr> (Rect p) \<and> 0 \<le> x' \<and> x' < X sz
                \<and> 0 \<le> y' \<and> y' < Y sz
             then Inr (modifiedColor m (At src x' y')) else RGBAAt p x' y')"
    using loop_x_valid [OF f(1), of m src sz 0] by auto
  have t: "toGreyscale m src = Inr out"
    using new' l by (simp add: toGreyscale_def Let_def sz_def)
  have inr: "Point_In \<lparr>X = x, Y = y\<rparr> (Rect p)"
    if "0 \<le> x" "x < X sz" "0 \<le> y" "y < Y sz" for x y
    using that by (simp add: f(2) image_Rect_0 Point_In_def)
  have "RGBAAt out x y =
          (if 0 \<le> x \<and> x < X sz \<and> 0 \<le> y \<and> y < Y sz
           then Inr (modifiedColor m (At src x y)) else Inr zero_RGBA)" for x y
    unfolding a f(3) using inr [of x y] by auto
  then show ?thesis using t v r by (simp add: sz)
qed

lemma toGreyscale_result:
  assumes "toGreyscale m src = Inr out"
  shows "valid_RGBA out"
    and "Rect out = image_Rect 0 0 (Rectangle_Dx (Bounds src)) (Rectangle_Dy (Bounds src))"
    and "\<And>x y. RGBAAt out x y =
                 (if 0 \<le> x \<and> x < Rectangle_Dx (Bounds src)
                     \<and> 0 \<le> y \<and> y < Rectangle_Dy (Bounds src)
                  then Inr (modifiedColor m (At src x y)) else Inr zero_RGBA)"
proof -
  define r where "r = image_Rect 0 0 (Rectangle_Dx (Bounds src)) (Rectangle_Dy (Bounds src))"
  obtain p where new: "NewRGBA r = Inr p"
    using assms toGreyscale_Inl [of src _ m] unfolding r_def by (cases "NewRGBA r") (auto simp: r_def)
  have i: "is_int64 (Rectangle_Dx (Bounds src))" "is_int64 (Rectangle_Dy (Bounds src))"
    using Size_int64 [of "Bounds src"] by (simp_all add: Size_Dx_Dy)
  have rp: "Rect p = r" using NewRGBA_fresh(2) [OF i new [unfolded r_def]] by (simp add: r_def)
  from toGreyscale_Inr [OF new [unfolded r_def], of m] assms
  have "valid_RGBA out \<and> Rect out = Rect p
           \<and> (\<forall>x y. RGBAAt out x y =
                 (if 0 \<le> x \<and> x < Rectangle_Dx (Bounds src)
                     \<and> 0 \<le> y \<and> y < Rectangle_Dy (Bounds src)
                  then Inr (modifiedColor m (At src x y)) else Inr zero_RGBA))"
    by auto
  then show "valid_RGBA out"
    and "Rect out = image_Rect 0 0 (Rectangle_Dx (Bounds src)) (Rectangle_Dy (Bounds src))"
    and "\<And>x y. RGBAAt out x y =
                 (if 0 \<le> x \<and> x < Rectangle_Dx (Bounds src)
                     \<and> 0 \<le> y \<and> y < Rectangle_Dy (Bounds src)
                  then Inr (modifiedColor m (At src x y)) else Inr zero_RGBA)"
    using rp by (simp_all add: r_def)
qed

section \<open>The transformation: results\<close>

lemma wrap64_small:
  "wrap64 0 = 0" "wrap64 1 = 1" "wrap64 2 = 2" "wrap64 4 = 4" "wrap64 8 = 8"
  by (simp_all add: wrap64_def)

lemma grey_200_100_50: "greyValue m \<lparr>R = 200, G = 100, B = 50, A = a\<rparr> = 124"
  using greyValue_eval [of 124 "\<lparr>R = 200, G = 100, B = 50, A = a\<rparr>" m] by simp

lemma grey_255_0_0: "greyValue m \<lparr>R = 255, G = 0, B = 0, A = a\<rparr> = 76"
  using greyValue_eval [of 76 "\<lparr>R = 255, G = 0, B = 0, A = a\<rparr>" m] by simp

lemma grey_255_255_255: "greyValue m \<lparr>R = 255, G = 255, B = 255, A = a\<rparr> = 255"
  using greyValue_grey [of "\<lparr>R = 255, G = 255, B = 255, A = a\<rparr>" 255 m] by simp

lemma grey_77_77_77: "greyValue m \<lparr>R = 77, G = 77, B = 77, A = a\<rparr> = 77"
  using greyValue_grey [of "\<lparr>R = 77, G = 77, B = 77, A = a\<rparr>" 77 m] by simp

lemma grey_0_0_0: "greyValue m \<lparr>R = 0, G = 0, B = 0, A = a\<rparr> = 0"
  using greyValue_grey [of "\<lparr>R = 0, G = 0, B = 0, A = a\<rparr>" 0 m] by simp

lemmas run_simps =
  toGreyscale_def Rectangle_Size_def Point_Sub_def image_Rect_def
  NewRGBA_def pixelBufferLength_def mul3NonNeg_def Rectangle_Dx_def Rectangle_Dy_def
  loop_x.simps loop_y.simps RGBA_Set_def Point_In_def PixOffset_def modifiedColor_def
  wrap64_small zero_RGBA_def NRGBA_premultiplies
  grey_200_100_50 grey_255_0_0 grey_255_255_255 grey_77_77_77 grey_0_0_0 Let_def

lemma run_src_2x1:
  "toGreyscale m src_2x1 =
     Inr \<lparr>Pix = [124, 124, 124, 255, 76, 76, 76, 255], Stride = 8,
          Rect = \<lparr>Min_pt = \<lparr>X = 0, Y = 0\<rparr>, Max_pt = \<lparr>X = 2, Y = 1\<rparr>\<rparr>\<rparr>"
  apply (simp add: src_2x1_def run_simps)
  apply (simp add: eval_nat_numeral)
  done

lemma run_src_other_2x1:
  "toGreyscale m src_other_2x1 =
     Inr \<lparr>Pix = [124, 124, 124, 255, 76, 76, 76, 255], Stride = 8,
          Rect = \<lparr>Min_pt = \<lparr>X = 0, Y = 0\<rparr>, Max_pt = \<lparr>X = 2, Y = 1\<rparr>\<rparr>\<rparr>"
  apply (simp add: src_other_2x1_def run_simps)
  apply (simp add: eval_nat_numeral)
  done

lemma run_src_offset_2x1:
  "toGreyscale m src_offset_2x1 =
     Inr \<lparr>Pix = [0, 0, 0, 0, 0, 0, 0, 0], Stride = 8,
          Rect = \<lparr>Min_pt = \<lparr>X = 0, Y = 0\<rparr>, Max_pt = \<lparr>X = 2, Y = 1\<rparr>\<rparr>\<rparr>"
  apply (simp add: src_offset_2x1_def run_simps)
  apply (simp add: eval_nat_numeral)
  done

lemma run_src_grey_1x1:
  "toGreyscale m src_grey_1x1 =
     Inr \<lparr>Pix = [77, 77, 77, 128], Stride = 4,
          Rect = \<lparr>Min_pt = \<lparr>X = 0, Y = 0\<rparr>, Max_pt = \<lparr>X = 1, Y = 1\<rparr>\<rparr>\<rparr>"
  apply (simp add: src_grey_1x1_def run_simps)
  apply (simp add: eval_nat_numeral)
  done

lemma run_src_unmultiplied_1x1:
  "toGreyscale m src_unmultiplied_1x1 =
     Inr \<lparr>Pix = [255, 255, 255, 0], Stride = 4,
          Rect = \<lparr>Min_pt = \<lparr>X = 0, Y = 0\<rparr>, Max_pt = \<lparr>X = 1, Y = 1\<rparr>\<rparr>\<rparr>"
  apply (simp add: src_unmultiplied_1x1_def run_simps)
  apply (simp add: eval_nat_numeral)
  done

lemma run_src_empty:
  "toGreyscale m src_empty =
     Inr \<lparr>Pix = [], Stride = 0,
          Rect = \<lparr>Min_pt = \<lparr>X = 0, Y = 0\<rparr>, Max_pt = \<lparr>X = 0, Y = 0\<rparr>\<rparr>\<rparr>"
  by (simp add: src_empty_def run_simps)

lemma run_src_clear_1x1:
  "toGreyscale m src_clear_1x1 =
     Inr \<lparr>Pix = [0, 0, 0, 0], Stride = 4,
          Rect = \<lparr>Min_pt = \<lparr>X = 0, Y = 0\<rparr>, Max_pt = \<lparr>X = 1, Y = 1\<rparr>\<rparr>\<rparr>"
  apply (simp add: src_clear_1x1_def run_simps)
  apply (simp add: eval_nat_numeral)
  done

lemma run_src_uniform:
  "toGreyscale m src_uniform = Inl NewRGBA_panic"
  by (simp add: src_uniform_def toGreyscale_def Rectangle_Size_def Point_Sub_def image_Rect_def
      NewRGBA_def pixelBufferLength_def mul3NonNeg_def Rectangle_Dx_def Rectangle_Dy_def
      wrap64_def NewRGBA_panic_def Let_def)


lemma in_fresh_Rect:
  assumes "0 \<le> x" "x < sx" "0 \<le> y" "y < sy"
  shows "Point_In \<lparr>X = x, Y = y\<rparr> (image_Rect 0 0 sx sy)"
  using assms by (simp add: image_Rect_0 Point_In_def)

text \<open>
  C1. When \<open>toGreyscale\<close> returns an image, its pixel at every coordinate \<open>(x, y)\<close> with
  \<open>0 \<le> x < width\<close> and \<open>0 \<le> y < height\<close> is \<open>(grey, grey, grey, A)\<close>: \<open>A\<close> is the alpha of
  the source color at \<open>(x, y)\<close> after conversion to 8-bit RGBA, and \<open>grey\<close> is the 8-bit
  value of \<open>math.Round\<close> (halves away from zero) applied to the floating-point sum
  \<open>0.299 * R + 0.587 * G + 0.114 * B\<close> of the converted channels.
\<close>

theorem toGreyscale_pixel:
  assumes "toGreyscale m src = Inr out"
    and "0 \<le> x" "x < Rectangle_Dx (Bounds src)" "0 \<le> y" "y < Rectangle_Dy (Bounds src)"
  shows "let c = rgbaModel (At src x y);
             grey = uint8_of_float64 (math_Round (luminosity m (float64_of_uint8 (R c))
                      (float64_of_uint8 (G c)) (float64_of_uint8 (B c))))
         in RGBAAt out x y = Inr \<lparr>R = grey, G = grey, B = grey, A = A c\<rparr>"
  using toGreyscale_result(3) [OF assms(1), of x y] assms(2-5)
  by (simp add: modifiedColor_def greyValue_def Let_def)

theorem toGreyscale_pixel_witness:
  "toGreyscale (No_FMA, False) src_2x1 =
     Inr \<lparr>Pix = [124, 124, 124, 255, 76, 76, 76, 255], Stride = 8,
          Rect = \<lparr>Min_pt = \<lparr>X = 0, Y = 0\<rparr>, Max_pt = \<lparr>X = 2, Y = 1\<rparr>\<rparr>\<rparr>
   \<and> Rectangle_Dx (Bounds src_2x1) = 2 \<and> Rectangle_Dy (Bounds src_2x1) = 1
   \<and> rgbaModel (At src_2x1 1 0) = \<lparr>R = 255, G = 0, B = 0, A = 255\<rparr>
   \<and> uint8_of_float64 (math_Round (luminosity (No_FMA, False) (float64_of_uint8 255)
        (float64_of_uint8 0) (float64_of_uint8 0))) = 76
   \<and> RGBAAt \<lparr>Pix = [124, 124, 124, 255, 76, 76, 76, 255], Stride = 8,
          Rect = \<lparr>Min_pt = \<lparr>X = 0, Y = 0\<rparr>, Max_pt = \<lparr>X = 2, Y = 1\<rparr>\<rparr>\<rparr> 1 0
       = Inr \<lparr>R = 76, G = 76, B = 76, A = 255\<rparr>"
proof -
  have g: "uint8_of_float64 (math_Round (luminosity (No_FMA, False) (float64_of_uint8 255)
        (float64_of_uint8 0) (float64_of_uint8 0))) = 76"
    using grey_255_0_0 [of "(No_FMA, False)" 255] by (simp add: greyValue_def)
  have d: "Rectangle_Dx (Bounds src_2x1) = 2" "Rectangle_Dy (Bounds src_2x1) = 1"
    by (simp_all add: src_2x1_def Rectangle_Dx_def Rectangle_Dy_def wrap64_small)
  have c: "rgbaModel (At src_2x1 1 0) = \<lparr>R = 255, G = 0, B = 0, A = 255\<rparr>"
    by (simp add: src_2x1_def)
  show ?thesis
    using toGreyscale_pixel [where m = "(No_FMA, False)" and x = 1 and y = 0,
        OF run_src_2x1] run_src_2x1 g d c
    by (simp add: Let_def)
qed

text \<open>
  C3. In the image that \<open>toGreyscale\<close> returns, the pixel at every coordinate has equal
  red, green and blue channels.
\<close>

theorem toGreyscale_grey_invariant:
  assumes "toGreyscale m src = Inr out"
  shows "\<exists>c. RGBAAt out x y = Inr c \<and> R c = G c \<and> G c = B c"
  using toGreyscale_result(3) [OF assms, of x y]
  by (simp add: modifiedColor_def zero_RGBA_def Let_def)

theorem toGreyscale_grey_invariant_witness:
  "toGreyscale (No_FMA, False) src_2x1 =
     Inr \<lparr>Pix = [124, 124, 124, 255, 76, 76, 76, 255], Stride = 8,
          Rect = \<lparr>Min_pt = \<lparr>X = 0, Y = 0\<rparr>, Max_pt = \<lparr>X = 2, Y = 1\<rparr>\<rparr>\<rparr>
   \<and> (\<exists>c. RGBAAt \<lparr>Pix = [124, 124, 124, 255, 76, 76, 76, 255], Stride = 8,
          Rect = \<lparr>Min_pt = \<lparr>X = 0, Y = 0\<rparr>, Max_pt = \<lparr>X = 2, Y = 1\<rparr>\<rparr>\<rparr> 0 0 = Inr c
        \<and> R c = G c \<and> G c = B c)"
  using toGreyscale_grey_invariant [where m = "(No_FMA, False)" and x = 0 and y = 0,
      OF run_src_2x1] run_src_2x1
  by simp


lemma loop_y_cong:
  assumes "\<And>y'. y \<le> y' \<Longrightarrow> y' < Y sz \<Longrightarrow> rgbaModel (At s1 x y') = rgbaModel (At s2 x y')"
  shows "loop_y m s1 sz x y p = loop_y m s2 sz x y p"
  using assms
proof (induction m s1 sz x y p rule: loop_y.induct)
  case (1 m s1 sz x y p)
  show ?case
  proof (cases "y < Y sz")
    case False
    then show ?thesis by (simp add: loop_y.simps [of _ _ sz x y])
  next
    case True
    have c: "modifiedColor m (At s1 x y) = modifiedColor m (At s2 x y)"
      using "1.prems" [of y] True by (simp add: modifiedColor_def)
    show ?thesis
    proof (cases "RGBA_Set p x y (Color_RGBA (modifiedColor m (At s1 x y)))")
      case (Inl e)
      then show ?thesis using True c by (simp add: loop_y.simps [of _ _ sz x y])
    next
      case (Inr img)
      have i2: "RGBA_Set p x y (Color_RGBA (modifiedColor m (At s2 x y))) = Inr img"
        using c Inr by simp
      have l1: "loop_y m s1 sz x y p = loop_y m s1 sz x (y + 1) img"
        using True Inr by (subst loop_y.simps) simp
      have l2: "loop_y m s2 sz x y p = loop_y m s2 sz x (y + 1) img"
        using True i2 by (subst loop_y.simps) simp
      have "loop_y m s1 sz x (y + 1) img = loop_y m s2 sz x (y + 1) img"
        using "1.IH" [OF True Inr] "1.prems" by simp
      then show ?thesis unfolding l1 l2 .
    qed
  qed
qed

lemma loop_x_cong:
  assumes "\<And>x' y'. x \<le> x' \<Longrightarrow> x' < X sz \<Longrightarrow> 0 \<le> y' \<Longrightarrow> y' < Y sz \<Longrightarrow>
             rgbaModel (At s1 x' y') = rgbaModel (At s2 x' y')"
  shows "loop_x m s1 sz x p = loop_x m s2 sz x p"
  using assms
proof (induction m s1 sz x p rule: loop_x.induct)
  case (1 m s1 sz x p)
  show ?case
  proof (cases "x < X sz")
    case False
    then show ?thesis by (simp add: loop_x.simps [of _ _ sz x])
  next
    case True
    have c: "loop_y m s1 sz x 0 p = loop_y m s2 sz x 0 p"
      using "1.prems" [of x] True by (intro loop_y_cong) simp_all
    show ?thesis
    proof (cases "loop_y m s1 sz x 0 p")
      case (Inl e)
      then show ?thesis using True c by (simp add: loop_x.simps [of _ _ sz x])
    next
      case (Inr img)
      have i2: "loop_y m s2 sz x 0 p = Inr img" using c Inr by simp
      have l1: "loop_x m s1 sz x p = loop_x m s1 sz (x + 1) img"
        using True Inr by (subst loop_x.simps) simp
      have l2: "loop_x m s2 sz x p = loop_x m s2 sz (x + 1) img"
        using True i2 by (subst loop_x.simps) simp
      have "loop_x m s1 sz (x + 1) img = loop_x m s2 sz (x + 1) img"
        using "1.IH" [OF True Inr] "1.prems" by simp
      then show ?thesis unfolding l1 l2 .
    qed
  qed
qed

lemma toGreyscale_cong:
  assumes "Rectangle_Size (Bounds s1) = Rectangle_Size (Bounds s2)"
    and "\<And>x y. 0 \<le> x \<Longrightarrow> x < Rectangle_Dx (Bounds s1) \<Longrightarrow> 0 \<le> y
           \<Longrightarrow> y < Rectangle_Dy (Bounds s1) \<Longrightarrow> rgbaModel (At s1 x y) = rgbaModel (At s2 x y)"
  shows "toGreyscale m s1 = toGreyscale m s2"
proof -
  have "loop_x m s1 (Rectangle_Size (Bounds s1)) 0 p = loop_x m s2 (Rectangle_Size (Bounds s1)) 0 p"
    for p
    using assms(2) by (intro loop_x_cong) (simp_all add: Size_Dx_Dy)
  then show ?thesis
    unfolding toGreyscale_def Let_def assms(1) [symmetric] by (simp split: sum.splits)
qed

lemma Dx_fresh:
  assumes "0 \<le> Rectangle_Dx b" "0 \<le> Rectangle_Dy b"
  shows "image_Rect 0 0 (Rectangle_Dx b) (Rectangle_Dy b)
         = \<lparr>Min_pt = \<lparr>X = 0, Y = 0\<rparr>, Max_pt = \<lparr>X = Rectangle_Dx b, Y = Rectangle_Dy b\<rparr>\<rparr>"
    and "Rectangle_Dx (image_Rect 0 0 (Rectangle_Dx b) (Rectangle_Dy b)) = Rectangle_Dx b"
    and "Rectangle_Dy (image_Rect 0 0 (Rectangle_Dx b) (Rectangle_Dy b)) = Rectangle_Dy b"
proof -
  show r: "image_Rect 0 0 (Rectangle_Dx b) (Rectangle_Dy b)
         = \<lparr>Min_pt = \<lparr>X = 0, Y = 0\<rparr>, Max_pt = \<lparr>X = Rectangle_Dx b, Y = Rectangle_Dy b\<rparr>\<rparr>"
    using assms by (simp add: image_Rect_0 min_def max_def)
  have i: "is_int64 (Rectangle_Dx b)" "is_int64 (Rectangle_Dy b)"
    using Size_int64 [of b] by (simp_all add: Size_Dx_Dy)
  have "wrap64 (Rectangle_Dx b) = Rectangle_Dx b" "wrap64 (Rectangle_Dy b) = Rectangle_Dy b"
    using i by (simp_all add: is_int64_def wrap64_id)
  then show "Rectangle_Dx (image_Rect 0 0 (Rectangle_Dx b) (Rectangle_Dy b)) = Rectangle_Dx b"
    and "Rectangle_Dy (image_Rect 0 0 (Rectangle_Dx b) (Rectangle_Dy b)) = Rectangle_Dy b"
    unfolding r by (simp_all add: Rectangle_Dx_def [of "\<lparr>Min_pt = _, Max_pt = _\<rparr>"]
        Rectangle_Dy_def [of "\<lparr>Min_pt = _, Max_pt = _\<rparr>"])
qed

text \<open>
  C2 (as amended). For a source image of width \<open>w \<ge> 0\<close> and height \<open>h \<ge> 0\<close>:
  when \<open>4 * w < 2 ^ 64\<close> and \<open>4 * w * h < 2 ^ 63\<close> (the buffer length that \<open>image.NewRGBA\<close>
  accepts with a 64-bit \<open>int\<close>), \<open>toGreyscale\<close> returns an image whose rectangle runs from
  \<open>(0, 0)\<close> to \<open>(w, h)\<close>, so of the same width and height; otherwise it panics in
  \<open>image.NewRGBA\<close>. A 0 x 0 source gives a 0 x 0 image.
\<close>

theorem toGreyscale_dimensions:
  assumes "0 \<le> Rectangle_Dx (Bounds src)" "0 \<le> Rectangle_Dy (Bounds src)"
  shows "if 4 * Rectangle_Dx (Bounds src) < 2 ^ 64
            \<and> 4 * Rectangle_Dx (Bounds src) * Rectangle_Dy (Bounds src) < 2 ^ 63
         then \<exists>out. toGreyscale m src = Inr out
                \<and> Rect out = \<lparr>Min_pt = \<lparr>X = 0, Y = 0\<rparr>,
                               Max_pt = \<lparr>X = Rectangle_Dx (Bounds src),
                                         Y = Rectangle_Dy (Bounds src)\<rparr>\<rparr>
                \<and> Rectangle_Dx (Rect out) = Rectangle_Dx (Bounds src)
                \<and> Rectangle_Dy (Rect out) = Rectangle_Dy (Bounds src)
         else toGreyscale m src = Inl NewRGBA_panic"
proof -
  define r where "r = image_Rect 0 0 (Rectangle_Dx (Bounds src)) (Rectangle_Dy (Bounds src))"
  note f = Dx_fresh [OF assms, folded r_def]
  show ?thesis
  proof (cases "4 * Rectangle_Dx (Bounds src) < 2 ^ 64
            \<and> 4 * Rectangle_Dx (Bounds src) * Rectangle_Dy (Bounds src) < 2 ^ 63")
    case True
    then obtain p where new: "NewRGBA r = Inr p" and rp: "Rect p = r"
      using assms by (simp add: NewRGBA_eq f(2,3))
    obtain out where "toGreyscale m src = Inr out" "Rect out = Rect p"
      using toGreyscale_Inr [OF new [unfolded r_def], of m] by auto
    then have "toGreyscale m src = Inr out \<and> Rect out = r
        \<and> Rectangle_Dx (Rect out) = Rectangle_Dx (Bounds src)
        \<and> Rectangle_Dy (Rect out) = Rectangle_Dy (Bounds src)"
      using rp f(2,3) by simp
    then show ?thesis using True f(1) by auto
  next
    case False
    then have "NewRGBA r = Inl NewRGBA_panic"
      by (auto simp: NewRGBA_eq f(2,3))
    then show ?thesis using False toGreyscale_Inl [of src NewRGBA_panic m] by (simp add: r_def)
  qed
qed

theorem toGreyscale_dimensions_witness:
  "Rectangle_Dx (Bounds src_2x1) = 2 \<and> Rectangle_Dy (Bounds src_2x1) = 1
   \<and> toGreyscale (No_FMA, False) src_2x1 =
       Inr \<lparr>Pix = [124, 124, 124, 255, 76, 76, 76, 255], Stride = 8,
            Rect = \<lparr>Min_pt = \<lparr>X = 0, Y = 0\<rparr>, Max_pt = \<lparr>X = 2, Y = 1\<rparr>\<rparr>\<rparr>
   \<and> Rectangle_Dx \<lparr>Min_pt = \<lparr>X = 0, Y = 0\<rparr>, Max_pt = \<lparr>X = 2, Y = 1\<rparr>\<rparr> = 2
   \<and> Rectangle_Dy \<lparr>Min_pt = \<lparr>X = 0, Y = 0\<rparr>, Max_pt = \<lparr>X = 2, Y = 1\<rparr>\<rparr> = 1
   \<and> Rectangle_Dx (Bounds src_empty) = 0 \<and> Rectangle_Dy (Bounds src_empty) = 0
   \<and> toGreyscale (No_FMA, False) src_empty =
       Inr \<lparr>Pix = [], Stride = 0,
            Rect = \<lparr>Min_pt = \<lparr>X = 0, Y = 0\<rparr>, Max_pt = \<lparr>X = 0, Y = 0\<rparr>\<rparr>\<rparr>
   \<and> Rectangle_Dx (Bounds src_uniform) = 2000000000
   \<and> Rectangle_Dy (Bounds src_uniform) = 2000000000
   \<and> toGreyscale (No_FMA, False) src_uniform = Inl NewRGBA_panic"
proof -
  have d: "Rectangle_Dx (Bounds src_2x1) = 2" "Rectangle_Dy (Bounds src_2x1) = 1"
    "Rectangle_Dx (Bounds src_empty) = 0" "Rectangle_Dy (Bounds src_empty) = 0"
    "Rectangle_Dx (Bounds src_uniform) = 2000000000"
    "Rectangle_Dy (Bounds src_uniform) = 2000000000"
    by (simp_all add: src_2x1_def src_empty_def src_uniform_def Rectangle_Dx_def
        Rectangle_Dy_def wrap64_def)
  have x: "Rectangle_Dx \<lparr>Min_pt = \<lparr>X = 0, Y = 0\<rparr>, Max_pt = \<lparr>X = 2, Y = 1\<rparr>\<rparr> = 2"
    "Rectangle_Dy \<lparr>Min_pt = \<lparr>X = 0, Y = 0\<rparr>, Max_pt = \<lparr>X = 2, Y = 1\<rparr>\<rparr> = 1"
    by (simp_all add: Rectangle_Dx_def Rectangle_Dy_def wrap64_def)
  have u: "toGreyscale (No_FMA, False) src_uniform = Inl NewRGBA_panic"
    using toGreyscale_dimensions [of src_uniform "(No_FMA, False)"] by (simp add: d)
  show ?thesis
    unfolding d x u run_src_2x1 run_src_empty by simp
qed

text \<open>
  C2 as stated fails for a source of non-negative width and height that is too large:
  \<open>image.Uniform\<close> is 2000000000 points wide and high, and \<open>toGreyscale\<close> panics on
  it in \<open>image.NewRGBA\<close>.
\<close>

theorem toGreyscale_total_counterexample:
  "Rectangle_Dx (Bounds src_uniform) = 2000000000
   \<and> Rectangle_Dy (Bounds src_uniform) = 2000000000
   \<and> toGreyscale (No_FMA, False) src_uniform
       = Inl (Panic ''image: NewRGBA Rectangle has huge or negative dimensions'')"
  using run_src_uniform [of "(No_FMA, False)"]
  by (simp add: src_uniform_def Rectangle_Dx_def Rectangle_Dy_def wrap64_def NewRGBA_panic_def)

text \<open>
  C6. A pixel whose converted channels are all equal to \<open>g\<close> gets the grey value \<open>g\<close>;
  so where the source color is grey, the output pixel of \<open>toGreyscale\<close> is the converted
  source pixel itself.
\<close>

theorem greyscale_idempotent:
  "(R c = G c \<and> G c = B c \<longrightarrow> greyValue m c = R c)
   \<and> (toGreyscale m src = Inr out
        \<and> 0 \<le> x \<and> x < Rectangle_Dx (Bounds src) \<and> 0 \<le> y \<and> y < Rectangle_Dy (Bounds src)
        \<and> R (rgbaModel (At src x y)) = G (rgbaModel (At src x y))
        \<and> G (rgbaModel (At src x y)) = B (rgbaModel (At src x y))
        \<longrightarrow> RGBAAt out x y = Inr (rgbaModel (At src x y)))"
proof (intro conjI impI)
  show "greyValue m c = R c" if h: "R c = G c \<and> G c = B c"
  proof (rule greyValue_grey)
    have h1: "R c = G c" and h2: "G c = B c" using h by blast+
    show "R c = R c" ..
    show "G c = R c" using h1 by (rule sym)
    show "B c = R c" using h1 h2 by (rule trans [symmetric])
  qed
  assume a: "toGreyscale m src = Inr out
        \<and> 0 \<le> x \<and> x < Rectangle_Dx (Bounds src) \<and> 0 \<le> y \<and> y < Rectangle_Dy (Bounds src)
        \<and> R (rgbaModel (At src x y)) = G (rgbaModel (At src x y))
        \<and> G (rgbaModel (At src x y)) = B (rgbaModel (At src x y))"
  define k where "k = rgbaModel (At src x y)"
  have e: "R k = G k" "G k = B k" using a unfolding k_def by blast+
  have g: "greyValue m k = R k"
  proof (rule greyValue_grey)
    show "R k = R k" ..
    show "G k = R k" using e(1) by (rule sym)
    show "B k = R k" using e by (rule trans [symmetric])
  qed
  have "RGBAAt out x y = Inr (modifiedColor m (At src x y))"
    using a toGreyscale_result(3) [of m src out x y] by simp
  also have "modifiedColor m (At src x y) = \<lparr>R = R k, G = R k, B = R k, A = A k\<rparr>"
    unfolding modifiedColor_def Let_def k_def [symmetric] g ..
  also have "\<dots> = k"
  proof -
    have "G k = R k" using e(1) by (rule sym)
    moreover have "B k = R k" using e by (rule trans [symmetric])
    ultimately have "k = \<lparr>R = R k, G = R k, B = R k, A = A k\<rparr>"
      by (cases k) simp
    then show ?thesis by (rule sym)
  qed
  finally show "RGBAAt out x y = Inr (rgbaModel (At src x y))" by (simp add: k_def)
qed

theorem greyscale_idempotent_witness:
  "toGreyscale (No_FMA, False) src_grey_1x1 =
     Inr \<lparr>Pix = [77, 77, 77, 128], Stride = 4,
          Rect = \<lparr>Min_pt = \<lparr>X = 0, Y = 0\<rparr>, Max_pt = \<lparr>X = 1, Y = 1\<rparr>\<rparr>\<rparr>
   \<and> Rectangle_Dx (Bounds src_grey_1x1) = 1 \<and> Rectangle_Dy (Bounds src_grey_1x1) = 1
   \<and> rgbaModel (At src_grey_1x1 0 0) = \<lparr>R = 77, G = 77, B = 77, A = 128\<rparr>
   \<and> greyValue (No_FMA, False) \<lparr>R = 77, G = 77, B = 77, A = 128\<rparr> = 77
   \<and> RGBAAt \<lparr>Pix = [77, 77, 77, 128], Stride = 4,
          Rect = \<lparr>Min_pt = \<lparr>X = 0, Y = 0\<rparr>, Max_pt = \<lparr>X = 1, Y = 1\<rparr>\<rparr>\<rparr> 0 0
       = Inr \<lparr>R = 77, G = 77, B = 77, A = 128\<rparr>"
proof -
  have d: "Rectangle_Dx (Bounds src_grey_1x1) = 1" "Rectangle_Dy (Bounds src_grey_1x1) = 1"
    by (simp_all add: src_grey_1x1_def Rectangle_Dx_def Rectangle_Dy_def wrap64_small)
  have c: "rgbaModel (At src_grey_1x1 0 0) = \<lparr>R = 77, G = 77, B = 77, A = 128\<rparr>"
    by (simp add: src_grey_1x1_def)
  note t = greyscale_idempotent [of "\<lparr>R = 77, G = 77, B = 77, A = 128\<rparr>" "(No_FMA, False)"
      src_grey_1x1 _ 0 0]
  have g: "greyValue (No_FMA, False) \<lparr>R = 77, G = 77, B = 77, A = 128\<rparr> = 77"
    using t by simp
  have "RGBAAt \<lparr>Pix = [77, 77, 77, 128], Stride = 4,
          Rect = \<lparr>Min_pt = \<lparr>X = 0, Y = 0\<rparr>, Max_pt = \<lparr>X = 1, Y = 1\<rparr>\<rparr>\<rparr> 0 0
       = Inr \<lparr>R = 77, G = 77, B = 77, A = 128\<rparr>"
    using t run_src_grey_1x1 [of "(No_FMA, False)"] unfolding d c by simp
  then show ?thesis unfolding d c g run_src_grey_1x1 by simp
qed

lemma wrap64_pos:
  assumes "is_int64 a" "is_int64 b" "a \<le> b" "0 < wrap64 (b - a)"
  shows "wrap64 (b - a) = b - a"
proof (cases "b - a < 2 ^ 63")
  case True
  then show ?thesis using assms(3) by (intro wrap64_id) simp_all
next
  case False
  have "b - a < 2 ^ 64" using assms(1,2) unfolding is_int64_def by simp
  then have "wrap64 (b - a) = b - a - 2 ^ 64" using False by (intro wrap64_high) simp_all
  then have "wrap64 (b - a) < 0" using \<open>b - a < 2 ^ 64\<close> by simp
  then show ?thesis using assms(4) by simp
qed

lemma outside_point:
  assumes i64: "int64_Rectangle b"
    and m: "Min_pt b \<noteq> \<lparr>X = 0, Y = 0\<rparr>"
    and pos: "0 < Rectangle_Dx b" "0 < Rectangle_Dy b"
  shows "\<exists>x y. 0 \<le> x \<and> x < Rectangle_Dx b \<and> 0 \<le> y \<and> y < Rectangle_Dy b
           \<and> \<not> Point_In \<lparr>X = x, Y = y\<rparr> b"
proof (cases "Point_In \<lparr>X = 0, Y = 0\<rparr> b")
  case False
  then show ?thesis using pos by (intro exI [of _ 0]) simp
next
  case True
  then have o: "X (Min_pt b) \<le> 0" "0 < X (Max_pt b)" "Y (Min_pt b) \<le> 0" "0 < Y (Max_pt b)"
    by (simp_all add: Point_In_def)
  have i: "is_int64 (X (Min_pt b))" "is_int64 (X (Max_pt b))"
    "is_int64 (Y (Min_pt b))" "is_int64 (Y (Max_pt b))"
    using i64 by (simp_all add: int64_Rectangle_def)
  have dx: "Rectangle_Dx b = X (Max_pt b) - X (Min_pt b)"
    unfolding Rectangle_Dx_def
    using pos(1) o i by (intro wrap64_pos) (simp_all add: Rectangle_Dx_def)
  have dy: "Rectangle_Dy b = Y (Max_pt b) - Y (Min_pt b)"
    unfolding Rectangle_Dy_def
    using pos(2) o i by (intro wrap64_pos) (simp_all add: Rectangle_Dy_def)
  have "X (Min_pt b) \<noteq> 0 \<or> Y (Min_pt b) \<noteq> 0"
    using m by (cases "Min_pt b") auto
  then show ?thesis
  proof
    assume "X (Min_pt b) \<noteq> 0"
    then have "X (Max_pt b) \<le> Rectangle_Dx b - 1" using o dx by simp
    then have "\<not> Point_In \<lparr>X = Rectangle_Dx b - 1, Y = 0\<rparr> b" by (simp add: Point_In_def)
    then show ?thesis
      using pos by (intro exI [of _ "Rectangle_Dx b - 1"] exI [of _ 0]) simp
  next
    assume "Y (Min_pt b) \<noteq> 0"
    then have "Y (Max_pt b) \<le> Rectangle_Dy b - 1" using o dy by simp
    then have "\<not> Point_In \<lparr>X = 0, Y = Rectangle_Dy b - 1\<rparr> b" by (simp add: Point_In_def)
    then show ?thesis
      using pos by (intro exI [of _ 0] exI [of _ "Rectangle_Dy b - 1"]) simp
  qed
qed

lemma origin_points:
  assumes i64: "int64_Rectangle b" and m: "Min_pt b = \<lparr>X = 0, Y = 0\<rparr>"
  shows "Point_In \<lparr>X = x, Y = y\<rparr> b
         \<longleftrightarrow> 0 \<le> x \<and> x < Rectangle_Dx b \<and> 0 \<le> y \<and> y < Rectangle_Dy b"
proof -
  have i: "is_int64 (X (Max_pt b))" "is_int64 (Y (Max_pt b))"
    using i64 by (simp_all add: int64_Rectangle_def)
  have "Rectangle_Dx b = X (Max_pt b)" "Rectangle_Dy b = Y (Max_pt b)"
    using i by (simp_all add: Rectangle_Dx_def Rectangle_Dy_def m is_int64_def wrap64_id)
  then show ?thesis by (simp add: Point_In_def m)
qed

text \<open>
  C9. For a source image with non-negative width and height whose bounds are Go
  \<open>int\<close>s, the image that \<open>toGreyscale\<close> returns has the rectangle from \<open>(0, 0)\<close> to
  \<open>(width, height)\<close>; its pixel at \<open>(x, y)\<close>, \<open>0 \<le> x < width\<close>, \<open>0 \<le> y < height\<close>, comes
  from \<open>At(x, y)\<close> of the source in absolute coordinates, and the result depends on
  nothing else of the source than its size and these colors. When the minimum corner of
  the source's bounds is \<open>(0, 0)\<close> the sampled coordinates are exactly the points of the
  bounds; when it is not (and the image is not empty), some sampled coordinate lies
  outside the bounds.
\<close>

theorem toGreyscale_absolute_sampling:
  assumes "toGreyscale m src = Inr out"
    and "0 \<le> Rectangle_Dx (Bounds src)" "0 \<le> Rectangle_Dy (Bounds src)"
    and "int64_Rectangle (Bounds src)"
  shows "Min_pt (Rect out) = \<lparr>X = 0, Y = 0\<rparr>
   \<and> Max_pt (Rect out) = \<lparr>X = Rectangle_Dx (Bounds src), Y = Rectangle_Dy (Bounds src)\<rparr>
   \<and> (\<forall>x y. 0 \<le> x \<and> x < Rectangle_Dx (Bounds src) \<and> 0 \<le> y \<and> y < Rectangle_Dy (Bounds src)
          \<longrightarrow> RGBAAt out x y = Inr (modifiedColor m (At src x y)))
   \<and> (\<forall>src'. Rectangle_Size (Bounds src') = Rectangle_Size (Bounds src)
          \<and> (\<forall>x y. 0 \<le> x \<and> x < Rectangle_Dx (Bounds src) \<and> 0 \<le> y
                 \<and> y < Rectangle_Dy (Bounds src) \<longrightarrow> At src' x y = At src x y)
          \<longrightarrow> toGreyscale m src' = Inr out)
   \<and> (Min_pt (Bounds src) = \<lparr>X = 0, Y = 0\<rparr> \<longrightarrow>
        (\<forall>x y. Point_In \<lparr>X = x, Y = y\<rparr> (Bounds src)
           \<longleftrightarrow> 0 \<le> x \<and> x < Rectangle_Dx (Bounds src) \<and> 0 \<le> y \<and> y < Rectangle_Dy (Bounds src)))
   \<and> (Min_pt (Bounds src) \<noteq> \<lparr>X = 0, Y = 0\<rparr>
        \<and> 0 < Rectangle_Dx (Bounds src) \<and> 0 < Rectangle_Dy (Bounds src) \<longrightarrow>
        (\<exists>x y. 0 \<le> x \<and> x < Rectangle_Dx (Bounds src) \<and> 0 \<le> y \<and> y < Rectangle_Dy (Bounds src)
           \<and> \<not> Point_In \<lparr>X = x, Y = y\<rparr> (Bounds src)))"
proof (intro conjI allI impI)
  note r = toGreyscale_result [OF assms(1)]
  note f = Dx_fresh [OF assms(2,3)]
  show "Min_pt (Rect out) = \<lparr>X = 0, Y = 0\<rparr>" by (simp add: r(2) f(1))
  show "Max_pt (Rect out) = \<lparr>X = Rectangle_Dx (Bounds src), Y = Rectangle_Dy (Bounds src)\<rparr>"
    by (simp add: r(2) f(1))
  show "RGBAAt out x y = Inr (modifiedColor m (At src x y))"
    if "0 \<le> x \<and> x < Rectangle_Dx (Bounds src) \<and> 0 \<le> y \<and> y < Rectangle_Dy (Bounds src)"
    for x y
    using that by (simp add: r(3))
  show "toGreyscale m src' = Inr out"
    if h: "Rectangle_Size (Bounds src') = Rectangle_Size (Bounds src)
          \<and> (\<forall>x y. 0 \<le> x \<and> x < Rectangle_Dx (Bounds src) \<and> 0 \<le> y
                 \<and> y < Rectangle_Dy (Bounds src) \<longrightarrow> At src' x y = At src x y)"
    for src'
  proof -
    have d: "Rectangle_Dx (Bounds src') = Rectangle_Dx (Bounds src)"
      "Rectangle_Dy (Bounds src') = Rectangle_Dy (Bounds src)"
      using h Size_Dx_Dy [of "Bounds src'"] Size_Dx_Dy [of "Bounds src"] by simp_all
    have "toGreyscale m src' = toGreyscale m src"
      using h by (intro toGreyscale_cong) (simp_all add: d)
    then show ?thesis using assms(1) by simp
  qed
  show "Point_In \<lparr>X = x, Y = y\<rparr> (Bounds src)
        \<longleftrightarrow> 0 \<le> x \<and> x < Rectangle_Dx (Bounds src) \<and> 0 \<le> y \<and> y < Rectangle_Dy (Bounds src)"
    if "Min_pt (Bounds src) = \<lparr>X = 0, Y = 0\<rparr>" for x y
    using origin_points [OF assms(4) that] .
  show "\<exists>x y. 0 \<le> x \<and> x < Rectangle_Dx (Bounds src) \<and> 0 \<le> y \<and> y < Rectangle_Dy (Bounds src)
           \<and> \<not> Point_In \<lparr>X = x, Y = y\<rparr> (Bounds src)"
    if "Min_pt (Bounds src) \<noteq> \<lparr>X = 0, Y = 0\<rparr>
        \<and> 0 < Rectangle_Dx (Bounds src) \<and> 0 < Rectangle_Dy (Bounds src)"
    using that outside_point [OF assms(4)] by blast
qed

lemma int64_small: "is_int64 0" "is_int64 1" "is_int64 2" "is_int64 10" "is_int64 11" "is_int64 12"
  by (simp_all add: is_int64_def)

theorem toGreyscale_absolute_sampling_witness:
  "toGreyscale (No_FMA, False) src_offset_2x1 =
     Inr \<lparr>Pix = [0, 0, 0, 0, 0, 0, 0, 0], Stride = 8,
          Rect = \<lparr>Min_pt = \<lparr>X = 0, Y = 0\<rparr>, Max_pt = \<lparr>X = 2, Y = 1\<rparr>\<rparr>\<rparr>
   \<and> Rectangle_Dx (Bounds src_offset_2x1) = 2 \<and> Rectangle_Dy (Bounds src_offset_2x1) = 1
   \<and> int64_Rectangle (Bounds src_offset_2x1)
   \<and> Min_pt (Bounds src_offset_2x1) = \<lparr>X = 10, Y = 10\<rparr>
   \<and> At src_offset_2x1 10 10 = Color_RGBA \<lparr>R = 200, G = 100, B = 50, A = 255\<rparr>
   \<and> At src_offset_2x1 0 0 = Color_RGBA \<lparr>R = 0, G = 0, B = 0, A = 0\<rparr>
   \<and> \<not> Point_In \<lparr>X = 0, Y = 0\<rparr> (Bounds src_offset_2x1)
   \<and> RGBAAt \<lparr>Pix = [0, 0, 0, 0, 0, 0, 0, 0], Stride = 8,
          Rect = \<lparr>Min_pt = \<lparr>X = 0, Y = 0\<rparr>, Max_pt = \<lparr>X = 2, Y = 1\<rparr>\<rparr>\<rparr> 0 0
       = Inr \<lparr>R = 0, G = 0, B = 0, A = 0\<rparr>
   \<and> toGreyscale (No_FMA, False) src_2x1 =
     Inr \<lparr>Pix = [124, 124, 124, 255, 76, 76, 76, 255], Stride = 8,
          Rect = \<lparr>Min_pt = \<lparr>X = 0, Y = 0\<rparr>, Max_pt = \<lparr>X = 2, Y = 1\<rparr>\<rparr>\<rparr>
   \<and> int64_Rectangle (Bounds src_2x1)
   \<and> Min_pt (Bounds src_2x1) = \<lparr>X = 0, Y = 0\<rparr>
   \<and> Point_In \<lparr>X = 1, Y = 0\<rparr> (Bounds src_2x1)
   \<and> RGBAAt \<lparr>Pix = [124, 124, 124, 255, 76, 76, 76, 255], Stride = 8,
          Rect = \<lparr>Min_pt = \<lparr>X = 0, Y = 0\<rparr>, Max_pt = \<lparr>X = 2, Y = 1\<rparr>\<rparr>\<rparr> 1 0
       = Inr \<lparr>R = 76, G = 76, B = 76, A = 255\<rparr>"
proof -
  have d: "Rectangle_Dx (Bounds src_offset_2x1) = 2" "Rectangle_Dy (Bounds src_offset_2x1) = 1"
    "Rectangle_Dx (Bounds src_2x1) = 2" "Rectangle_Dy (Bounds src_2x1) = 1"
    by (simp_all add: src_offset_2x1_def src_2x1_def Rectangle_Dx_def Rectangle_Dy_def wrap64_small)
  have i: "int64_Rectangle (Bounds src_offset_2x1)" "int64_Rectangle (Bounds src_2x1)"
    by (simp_all add: src_offset_2x1_def src_2x1_def int64_Rectangle_def int64_small)
  have b: "Min_pt (Bounds src_offset_2x1) = \<lparr>X = 10, Y = 10\<rparr>"
    "Min_pt (Bounds src_2x1) = \<lparr>X = 0, Y = 0\<rparr>"
    "At src_offset_2x1 10 10 = Color_RGBA \<lparr>R = 200, G = 100, B = 50, A = 255\<rparr>"
    "At src_offset_2x1 0 0 = Color_RGBA \<lparr>R = 0, G = 0, B = 0, A = 0\<rparr>"
    "At src_2x1 1 0 = Color_RGBA \<lparr>R = 255, G = 0, B = 0, A = 255\<rparr>"
    by (simp_all add: src_offset_2x1_def src_2x1_def zero_RGBA_def)
  have o: "\<not> Point_In \<lparr>X = 0, Y = 0\<rparr> (Bounds src_offset_2x1)"
    by (simp add: src_offset_2x1_def Point_In_def)
  note t1 = toGreyscale_absolute_sampling [where m = "(No_FMA, False)", OF run_src_offset_2x1,
      unfolded d, OF _ _ i(1)]
  note t2 = toGreyscale_absolute_sampling [where m = "(No_FMA, False)", OF run_src_2x1,
      unfolded d, OF _ _ i(2)]
  have p1: "RGBAAt \<lparr>Pix = [0, 0, 0, 0, 0, 0, 0, 0], Stride = 8,
          Rect = \<lparr>Min_pt = \<lparr>X = 0, Y = 0\<rparr>, Max_pt = \<lparr>X = 2, Y = 1\<rparr>\<rparr>\<rparr> 0 0
       = Inr \<lparr>R = 0, G = 0, B = 0, A = 0\<rparr>"
    using t1 by (simp add: b modifiedColor_def grey_0_0_0)
  have p2: "RGBAAt \<lparr>Pix = [124, 124, 124, 255, 76, 76, 76, 255], Stride = 8,
          Rect = \<lparr>Min_pt = \<lparr>X = 0, Y = 0\<rparr>, Max_pt = \<lparr>X = 2, Y = 1\<rparr>\<rparr>\<rparr> 1 0
       = Inr \<lparr>R = 76, G = 76, B = 76, A = 255\<rparr>"
    using t2 by (simp add: b modifiedColor_def grey_255_0_0)
  have q: "Point_In \<lparr>X = 1, Y = 0\<rparr> (Bounds src_2x1)"
    using t2 b(2) by simp
  show ?thesis
    unfolding run_src_offset_2x1 run_src_2x1 d p1 p2 using i b o q by simp
qed

text \<open>
  C10 (as amended). Where the source color at an in-range coordinate is a valid
  alpha-premultiplied color (the values of its \<open>RGBA()\<close> method are at most \<open>0xffff\<close> and
  no color channel exceeds alpha), the converted channels \<open>R\<close>, \<open>G\<close>, \<open>B\<close> are at most the
  converted alpha \<open>A\<close>, the grey value is at most \<open>A\<close>, the output pixel
  \<open>(grey, grey, grey, A)\<close> is again a valid premultiplied color, and a fully transparent
  pixel (\<open>A = 0\<close>) gives the output pixel \<open>(0, 0, 0, 0)\<close>.
\<close>

theorem premultiplied_output:
  assumes "toGreyscale m src = Inr out"
    and "0 \<le> x" "x < Rectangle_Dx (Bounds src)" "0 \<le> y" "y < Rectangle_Dy (Bounds src)"
    and "premultiplied (At src x y)"
  shows "R (rgbaModel (At src x y)) \<le> A (rgbaModel (At src x y))
   \<and> G (rgbaModel (At src x y)) \<le> A (rgbaModel (At src x y))
   \<and> B (rgbaModel (At src x y)) \<le> A (rgbaModel (At src x y))
   \<and> greyValue m (rgbaModel (At src x y)) \<le> A (rgbaModel (At src x y))
   \<and> RGBAAt out x y =
       Inr \<lparr>R = greyValue m (rgbaModel (At src x y)), G = greyValue m (rgbaModel (At src x y)),
            B = greyValue m (rgbaModel (At src x y)), A = A (rgbaModel (At src x y))\<rparr>
   \<and> (A (rgbaModel (At src x y)) = 0 \<longrightarrow> RGBAAt out x y = Inr zero_RGBA)"
proof -
  define c where "c = rgbaModel (At src x y)"
  note p = premultiplied_rgbaModel [OF assms(6), folded c_def]
  have g: "greyValue m c \<le> A c" using p by (rule greyValue_le)
  have a: "RGBAAt out x y = Inr \<lparr>R = greyValue m c, G = greyValue m c,
            B = greyValue m c, A = A c\<rparr>"
    using toGreyscale_result(3) [OF assms(1), of x y] assms(2-5)
    by (simp add: modifiedColor_def c_def Let_def)
  have "RGBAAt out x y = Inr zero_RGBA" if "A c = 0"
    using g a that by (simp add: zero_RGBA_def)
  then show ?thesis using p g a unfolding c_def by blast
qed

lemma premultiplied_examples:
  "premultiplied (Color_RGBA \<lparr>R = 200, G = 100, B = 50, A = 255\<rparr>)"
  "premultiplied (Color_NRGBA 10 20 30 0)"
  by (simp add: premultiplied_def widen_values) (rule premultiplied_NRGBA)

theorem premultiplied_output_witness:
  "toGreyscale (No_FMA, False) src_2x1 =
     Inr \<lparr>Pix = [124, 124, 124, 255, 76, 76, 76, 255], Stride = 8,
          Rect = \<lparr>Min_pt = \<lparr>X = 0, Y = 0\<rparr>, Max_pt = \<lparr>X = 2, Y = 1\<rparr>\<rparr>\<rparr>
   \<and> Rectangle_Dx (Bounds src_2x1) = 2 \<and> Rectangle_Dy (Bounds src_2x1) = 1
   \<and> premultiplied (At src_2x1 0 0)
   \<and> rgbaModel (At src_2x1 0 0) = \<lparr>R = 200, G = 100, B = 50, A = 255\<rparr>
   \<and> RGBAAt \<lparr>Pix = [124, 124, 124, 255, 76, 76, 76, 255], Stride = 8,
          Rect = \<lparr>Min_pt = \<lparr>X = 0, Y = 0\<rparr>, Max_pt = \<lparr>X = 2, Y = 1\<rparr>\<rparr>\<rparr> 0 0
       = Inr \<lparr>R = 124, G = 124, B = 124, A = 255\<rparr>
   \<and> toGreyscale (No_FMA, False) src_clear_1x1 =
     Inr \<lparr>Pix = [0, 0, 0, 0], Stride = 4,
          Rect = \<lparr>Min_pt = \<lparr>X = 0, Y = 0\<rparr>, Max_pt = \<lparr>X = 1, Y = 1\<rparr>\<rparr>\<rparr>
   \<and> Rectangle_Dx (Bounds src_clear_1x1) = 1 \<and> Rectangle_Dy (Bounds src_clear_1x1) = 1
   \<and> premultiplied (At src_clear_1x1 0 0)
   \<and> A (rgbaModel (At src_clear_1x1 0 0)) = 0
   \<and> RGBAAt \<lparr>Pix = [0, 0, 0, 0], Stride = 4,
          Rect = \<lparr>Min_pt = \<lparr>X = 0, Y = 0\<rparr>, Max_pt = \<lparr>X = 1, Y = 1\<rparr>\<rparr>\<rparr> 0 0
       = Inr \<lparr>R = 0, G = 0, B = 0, A = 0\<rparr>"
proof -
  have d: "Rectangle_Dx (Bounds src_2x1) = 2" "Rectangle_Dy (Bounds src_2x1) = 1"
    "Rectangle_Dx (Bounds src_clear_1x1) = 1" "Rectangle_Dy (Bounds src_clear_1x1) = 1"
    by (simp_all add: src_clear_1x1_def src_2x1_def Rectangle_Dx_def Rectangle_Dy_def wrap64_small)
  have c: "At src_2x1 0 0 = Color_RGBA \<lparr>R = 200, G = 100, B = 50, A = 255\<rparr>"
    "At src_clear_1x1 0 0 = Color_NRGBA 10 20 30 0"
    by (simp_all add: src_clear_1x1_def src_2x1_def)
  have pm: "premultiplied (At src_2x1 0 0)" "premultiplied (At src_clear_1x1 0 0)"
    unfolding c by (rule premultiplied_examples)+
  have r: "rgbaModel (At src_2x1 0 0) = \<lparr>R = 200, G = 100, B = 50, A = 255\<rparr>"
    "A (rgbaModel (At src_clear_1x1 0 0)) = 0"
    unfolding c by (simp_all add: NRGBA_premultiplies)
  have p1: "RGBAAt \<lparr>Pix = [124, 124, 124, 255, 76, 76, 76, 255], Stride = 8,
          Rect = \<lparr>Min_pt = \<lparr>X = 0, Y = 0\<rparr>, Max_pt = \<lparr>X = 2, Y = 1\<rparr>\<rparr>\<rparr> 0 0
       = Inr \<lparr>R = 124, G = 124, B = 124, A = 255\<rparr>"
    using premultiplied_output [where m = "(No_FMA, False)" and x = 0 and y = 0,
        OF run_src_2x1 _ _ _ _ pm(1)]
    by (simp add: d r grey_200_100_50)
  have p2: "RGBAAt \<lparr>Pix = [0, 0, 0, 0], Stride = 4,
          Rect = \<lparr>Min_pt = \<lparr>X = 0, Y = 0\<rparr>, Max_pt = \<lparr>X = 1, Y = 1\<rparr>\<rparr>\<rparr> 0 0
       = Inr \<lparr>R = 0, G = 0, B = 0, A = 0\<rparr>"
    using premultiplied_output [where m = "(No_FMA, False)" and x = 0 and y = 0,
        OF run_src_clear_1x1 _ _ _ _ pm(2)]
    by (simp add: d r zero_RGBA_def)
  show ?thesis
    unfolding run_src_2x1 run_src_clear_1x1 d p1 p2 r using pm by simp
qed

text \<open>
  C10 as stated fails for a \<open>color.RGBA\<close> stored with color channels above alpha, which
  the conversion returns as it is: the pixel \<open>(255, 255, 255, 0)\<close> keeps red above alpha
  after normalization and stays \<open>(255, 255, 255, 0)\<close> in the output.
\<close>

theorem premultiplied_counterexample:
  "rgbaModel (At src_unmultiplied_1x1 0 0) = \<lparr>R = 255, G = 255, B = 255, A = 0\<rparr>
   \<and> \<not> R (rgbaModel (At src_unmultiplied_1x1 0 0)) \<le> A (rgbaModel (At src_unmultiplied_1x1 0 0))
   \<and> toGreyscale (No_FMA, False) src_unmultiplied_1x1 =
       Inr \<lparr>Pix = [255, 255, 255, 0], Stride = 4,
            Rect = \<lparr>Min_pt = \<lparr>X = 0, Y = 0\<rparr>, Max_pt = \<lparr>X = 1, Y = 1\<rparr>\<rparr>\<rparr>
   \<and> RGBAAt \<lparr>Pix = [255, 255, 255, 0], Stride = 4,
            Rect = \<lparr>Min_pt = \<lparr>X = 0, Y = 0\<rparr>, Max_pt = \<lparr>X = 1, Y = 1\<rparr>\<rparr>\<rparr> 0 0
       = Inr \<lparr>R = 255, G = 255, B = 255, A = 0\<rparr>"
proof -
  have c: "rgbaModel (At src_unmultiplied_1x1 0 0) = \<lparr>R = 255, G = 255, B = 255, A = 0\<rparr>"
    by (simp add: src_unmultiplied_1x1_def)
  have p: "RGBAAt \<lparr>Pix = [255, 255, 255, 0], Stride = 4,
            Rect = \<lparr>Min_pt = \<lparr>X = 0, Y = 0\<rparr>, Max_pt = \<lparr>X = 1, Y = 1\<rparr>\<rparr>\<rparr> 0 0
       = Inr \<lparr>R = 255, G = 255, B = 255, A = 0\<rparr>"
    by (simp add: RGBAAt_def Point_In_def PixOffset_def wrap64_small)
  show ?thesis unfolding c p run_src_unmultiplied_1x1 by simp
qed

section \<open>Normalization by representation, and the range of the rounded value\<close>

lemma high_byte_NRGBA:
  "unat (ucast (drop_bit 8 (NRGBA_channel c a)) :: 8 word)
   = 257 * unat c * unat a div 255 div 256"
proof -
  have c: "unat c < 256" using unsigned_less [of c] by simp
  then have c': "unat c \<le> 255" by simp
  have a: "unat a < 256" using unsigned_less [of a] by simp
  have "257 * unat c * unat a \<le> 255 * (257 * unat a)" using c' by simp
  then have "257 * unat c * unat a div 255 \<le> 257 * unat a"
    by (metis div_le_mono nonzero_mult_div_cancel_left zero_neq_numeral)
  then have "257 * unat c * unat a div 255 < 65536" using a by simp
  then have "257 * unat c * unat a div 255 div 256 < 256" by simp
  then show ?thesis by (simp add: high_byte unat_NRGBA_channel)
qed

lemma high_byte_NRGBA_opaque: "ucast (drop_bit 8 (NRGBA_channel c 255)) = c"
proof -
  have c: "unat c < 256" using unsigned_less [of c] by simp
  have "unat (ucast (drop_bit 8 (NRGBA_channel c 255)) :: 8 word) = unat c"
    using c by (simp add: high_byte_NRGBA)
  then show ?thesis by (simp only: word_unat_eq_iff)
qed

lemma high_byte_NRGBA_clear: "(ucast (drop_bit 8 (NRGBA_channel c 0)) :: 8 word) = 0"
proof -
  have "unat (ucast (drop_bit 8 (NRGBA_channel c 0)) :: 8 word) = unat (0 :: 8 word)"
    by (simp add: high_byte_NRGBA)
  then show ?thesis by (simp only: word_unat_eq_iff)
qed

lemma rgbaModel_NRGBA:
  "rgbaModel (Color_NRGBA r g b a) =
     \<lparr>R = ucast (drop_bit 8 (NRGBA_channel r a)), G = ucast (drop_bit 8 (NRGBA_channel g a)),
      B = ucast (drop_bit 8 (NRGBA_channel b a)), A = a\<rparr>"
  by (simp add: Color_NRGBA_def high_byte_widen)

lemma grey_10_20_30: "greyValue m \<lparr>R = 10, G = 20, B = 30, A = a\<rparr> = 18"
  using greyValue_eval [of 18 "\<lparr>R = 10, G = 20, B = 30, A = a\<rparr>" m] by simp

lemma NRGBA_opaque_example:
  "rgbaModel (Color_NRGBA 200 100 50 255) = \<lparr>R = 200, G = 100, B = 50, A = 255\<rparr>"
  "rgbaModel (Color_NRGBA 0 0 0 0) = \<lparr>R = 0, G = 0, B = 0, A = 0\<rparr>"
  by (simp_all add: rgbaModel_NRGBA high_byte_NRGBA_opaque high_byte_NRGBA_clear)

lemma run_src_nrgba_2x1:
  "toGreyscale m src_nrgba_2x1 =
     Inr \<lparr>Pix = [124, 124, 124, 255, 0, 0, 0, 0], Stride = 8,
          Rect = \<lparr>Min_pt = \<lparr>X = 0, Y = 0\<rparr>, Max_pt = \<lparr>X = 2, Y = 1\<rparr>\<rparr>\<rparr>"
  apply (simp add: src_nrgba_2x1_def run_simps NRGBA_opaque_example)
  apply (simp add: eval_nat_numeral)
  done

text \<open>
  C4 (as amended). At a sampled coordinate \<open>(x, y)\<close>, \<open>0 \<le> x < width\<close>, \<open>0 \<le> y < height\<close>,
  normalization is the high byte of each 16-bit channel that the color's \<open>RGBA()\<close> method
  returns. For a \<open>color.RGBA\<close> pixel these are the stored channels, and the output pixel is
  computed from them. For a non-premultiplied \<open>color.NRGBA\<close> pixel \<open>(r, g, b, a)\<close> alpha is
  read as stored and each color channel becomes \<open>(257 * c * a / 255) / 256\<close> (integer
  division), which is the stored channel when \<open>a = 255\<close> and zero when \<open>a = 0\<close>, where the
  output pixel is \<open>(0, 0, 0, 0)\<close>. A source of the same size whose colors have the same
  \<open>RGBA()\<close> values at every sampled coordinate gives the same output.
\<close>

theorem normalization_by_representation:
  assumes "toGreyscale m src = Inr out"
    and "0 \<le> x" "x < Rectangle_Dx (Bounds src)" "0 \<le> y" "y < Rectangle_Dy (Bounds src)"
  shows "rgbaModel (At src x y) =
       (case Color_RGBA_values (At src x y) of
          (r, g, b, a) \<Rightarrow> \<lparr>R = ucast (drop_bit 8 r), G = ucast (drop_bit 8 g),
                           B = ucast (drop_bit 8 b), A = ucast (drop_bit 8 a)\<rparr>)
   \<and> (At src x y = Color_RGBA c \<longrightarrow>
        rgbaModel (At src x y) = c
        \<and> RGBAAt out x y = Inr \<lparr>R = greyValue m c, G = greyValue m c,
                                 B = greyValue m c, A = A c\<rparr>)
   \<and> (At src x y = Color_NRGBA r g b a \<longrightarrow>
        A (rgbaModel (At src x y)) = a
        \<and> unat (R (rgbaModel (At src x y))) = 257 * unat r * unat a div 255 div 256
        \<and> unat (G (rgbaModel (At src x y))) = 257 * unat g * unat a div 255 div 256
        \<and> unat (B (rgbaModel (At src x y))) = 257 * unat b * unat a div 255 div 256
        \<and> (a = 255 \<longrightarrow> rgbaModel (At src x y) = \<lparr>R = r, G = g, B = b, A = a\<rparr>)
        \<and> (a = 0 \<longrightarrow> RGBAAt out x y = Inr zero_RGBA))
   \<and> (\<forall>src'. Rectangle_Size (Bounds src') = Rectangle_Size (Bounds src)
          \<and> (\<forall>x y. 0 \<le> x \<and> x < Rectangle_Dx (Bounds src) \<and> 0 \<le> y
                 \<and> y < Rectangle_Dy (Bounds src)
                 \<longrightarrow> Color_RGBA_values (At src' x y) = Color_RGBA_values (At src x y))
          \<longrightarrow> toGreyscale m src' = Inr out)"
proof (intro conjI allI impI)
  note px = toGreyscale_result(3) [OF assms(1), of x y]
  have o: "RGBAAt out x y = Inr (modifiedColor m (At src x y))"
    using px assms(2-5) by simp
  show "rgbaModel (At src x y) =
       (case Color_RGBA_values (At src x y) of
          (r, g, b, a) \<Rightarrow> \<lparr>R = ucast (drop_bit 8 r), G = ucast (drop_bit 8 g),
                           B = ucast (drop_bit 8 b), A = ucast (drop_bit 8 a)\<rparr>)"
    by (rule rgbaModel_values)
  show "rgbaModel (At src x y) = c" if "At src x y = Color_RGBA c"
    using that by simp
  show "RGBAAt out x y = Inr \<lparr>R = greyValue m c, G = greyValue m c,
                                 B = greyValue m c, A = A c\<rparr>"
    if "At src x y = Color_RGBA c"
    using that o by (simp add: modifiedColor_def Let_def)
  show "A (rgbaModel (At src x y)) = a" if "At src x y = Color_NRGBA r g b a"
    using that by (simp add: rgbaModel_NRGBA)
  show "unat (R (rgbaModel (At src x y))) = 257 * unat r * unat a div 255 div 256"
    if "At src x y = Color_NRGBA r g b a"
    unfolding that rgbaModel_NRGBA by (simp add: high_byte_NRGBA)
  show "unat (G (rgbaModel (At src x y))) = 257 * unat g * unat a div 255 div 256"
    if "At src x y = Color_NRGBA r g b a"
    unfolding that rgbaModel_NRGBA by (simp add: high_byte_NRGBA)
  show "unat (B (rgbaModel (At src x y))) = 257 * unat b * unat a div 255 div 256"
    if "At src x y = Color_NRGBA r g b a"
    unfolding that rgbaModel_NRGBA by (simp add: high_byte_NRGBA)
  show "rgbaModel (At src x y) = \<lparr>R = r, G = g, B = b, A = a\<rparr>"
    if "At src x y = Color_NRGBA r g b a" "a = 255"
    unfolding that rgbaModel_NRGBA by (simp add: high_byte_NRGBA_opaque)
  show "RGBAAt out x y = Inr zero_RGBA"
    if "At src x y = Color_NRGBA r g b a" "a = 0"
  proof -
    have "rgbaModel (At src x y) = \<lparr>R = 0, G = 0, B = 0, A = 0\<rparr>"
      unfolding that rgbaModel_NRGBA by (simp add: high_byte_NRGBA_clear)
    then show ?thesis
      using o by (simp add: modifiedColor_def Let_def grey_0_0_0 zero_RGBA_def)
  qed
  show "toGreyscale m src' = Inr out"
    if h: "Rectangle_Size (Bounds src') = Rectangle_Size (Bounds src)
          \<and> (\<forall>x y. 0 \<le> x \<and> x < Rectangle_Dx (Bounds src) \<and> 0 \<le> y
                 \<and> y < Rectangle_Dy (Bounds src)
                 \<longrightarrow> Color_RGBA_values (At src' x y) = Color_RGBA_values (At src x y))"
    for src'
  proof -
    have d: "Rectangle_Dx (Bounds src') = Rectangle_Dx (Bounds src)"
      "Rectangle_Dy (Bounds src') = Rectangle_Dy (Bounds src)"
      using h Size_Dx_Dy [of "Bounds src'"] Size_Dx_Dy [of "Bounds src"] by simp_all
    have "toGreyscale m src' = toGreyscale m src"
    proof (rule toGreyscale_cong)
      show "Rectangle_Size (Bounds src') = Rectangle_Size (Bounds src)" using h by simp
      fix x y
      assume "0 \<le> x" "x < Rectangle_Dx (Bounds src')" "0 \<le> y" "y < Rectangle_Dy (Bounds src')"
      then have "Color_RGBA_values (At src' x y) = Color_RGBA_values (At src x y)"
        using h d by simp
      then show "rgbaModel (At src' x y) = rgbaModel (At src x y)"
        by (simp add: rgbaModel_values)
    qed
    then show ?thesis using assms(1) by simp
  qed
qed

theorem normalization_by_representation_witness:
  "toGreyscale (No_FMA, False) src_nrgba_2x1 =
     Inr \<lparr>Pix = [124, 124, 124, 255, 0, 0, 0, 0], Stride = 8,
          Rect = \<lparr>Min_pt = \<lparr>X = 0, Y = 0\<rparr>, Max_pt = \<lparr>X = 2, Y = 1\<rparr>\<rparr>\<rparr>
   \<and> Rectangle_Dx (Bounds src_nrgba_2x1) = 2 \<and> Rectangle_Dy (Bounds src_nrgba_2x1) = 1
   \<and> At src_nrgba_2x1 0 0 = Color_NRGBA 200 100 50 255
   \<and> rgbaModel (At src_nrgba_2x1 0 0) = \<lparr>R = 200, G = 100, B = 50, A = 255\<rparr>
   \<and> At src_nrgba_2x1 1 0 = Color_NRGBA 10 20 30 0
   \<and> RGBAAt \<lparr>Pix = [124, 124, 124, 255, 0, 0, 0, 0], Stride = 8,
          Rect = \<lparr>Min_pt = \<lparr>X = 0, Y = 0\<rparr>, Max_pt = \<lparr>X = 2, Y = 1\<rparr>\<rparr>\<rparr> 1 0
       = Inr \<lparr>R = 0, G = 0, B = 0, A = 0\<rparr>
   \<and> toGreyscale (No_FMA, False) src_2x1 =
     Inr \<lparr>Pix = [124, 124, 124, 255, 76, 76, 76, 255], Stride = 8,
          Rect = \<lparr>Min_pt = \<lparr>X = 0, Y = 0\<rparr>, Max_pt = \<lparr>X = 2, Y = 1\<rparr>\<rparr>\<rparr>
   \<and> Rectangle_Dx (Bounds src_2x1) = 2 \<and> Rectangle_Dy (Bounds src_2x1) = 1
   \<and> At src_2x1 0 0 = Color_RGBA \<lparr>R = 200, G = 100, B = 50, A = 255\<rparr>
   \<and> RGBAAt \<lparr>Pix = [124, 124, 124, 255, 76, 76, 76, 255], Stride = 8,
          Rect = \<lparr>Min_pt = \<lparr>X = 0, Y = 0\<rparr>, Max_pt = \<lparr>X = 2, Y = 1\<rparr>\<rparr>\<rparr> 0 0
       = Inr \<lparr>R = 124, G = 124, B = 124, A = 255\<rparr>
   \<and> Rectangle_Size (Bounds src_other_2x1) = Rectangle_Size (Bounds src_2x1)
   \<and> Color_RGBA_values (At src_other_2x1 0 0) = Color_RGBA_values (At src_2x1 0 0)
   \<and> Color_RGBA_values (At src_other_2x1 1 0) = Color_RGBA_values (At src_2x1 1 0)
   \<and> toGreyscale (No_FMA, False) src_other_2x1 =
     Inr \<lparr>Pix = [124, 124, 124, 255, 76, 76, 76, 255], Stride = 8,
          Rect = \<lparr>Min_pt = \<lparr>X = 0, Y = 0\<rparr>, Max_pt = \<lparr>X = 2, Y = 1\<rparr>\<rparr>\<rparr>"
proof -
  have d: "Rectangle_Dx (Bounds src_nrgba_2x1) = 2" "Rectangle_Dy (Bounds src_nrgba_2x1) = 1"
    "Rectangle_Dx (Bounds src_2x1) = 2" "Rectangle_Dy (Bounds src_2x1) = 1"
    by (simp_all add: src_nrgba_2x1_def src_2x1_def Rectangle_Dx_def Rectangle_Dy_def
        wrap64_small)
  have c: "At src_nrgba_2x1 0 0 = Color_NRGBA 200 100 50 255"
    "At src_nrgba_2x1 1 0 = Color_NRGBA 10 20 30 0"
    "At src_2x1 0 0 = Color_RGBA \<lparr>R = 200, G = 100, B = 50, A = 255\<rparr>"
    by (simp_all add: src_nrgba_2x1_def src_2x1_def)
  note n1 = normalization_by_representation [where m = "(No_FMA, False)" and x = 1 and y = 0
      and r = 10 and g = 20 and b = 30 and a = 0, OF run_src_nrgba_2x1, unfolded d]
  note n2 = normalization_by_representation [where m = "(No_FMA, False)" and x = 0 and y = 0
      and c = "\<lparr>R = 200, G = 100, B = 50, A = 255\<rparr>", OF run_src_2x1, unfolded d]
  have p0: "rgbaModel (At src_nrgba_2x1 0 0) = \<lparr>R = 200, G = 100, B = 50, A = 255\<rparr>"
    unfolding c(1) by (rule NRGBA_opaque_example)
  have p1: "RGBAAt \<lparr>Pix = [124, 124, 124, 255, 0, 0, 0, 0], Stride = 8,
          Rect = \<lparr>Min_pt = \<lparr>X = 0, Y = 0\<rparr>, Max_pt = \<lparr>X = 2, Y = 1\<rparr>\<rparr>\<rparr> 1 0
       = Inr \<lparr>R = 0, G = 0, B = 0, A = 0\<rparr>"
    using n1 c(2) by (simp add: zero_RGBA_def)
  have p2: "RGBAAt \<lparr>Pix = [124, 124, 124, 255, 76, 76, 76, 255], Stride = 8,
          Rect = \<lparr>Min_pt = \<lparr>X = 0, Y = 0\<rparr>, Max_pt = \<lparr>X = 2, Y = 1\<rparr>\<rparr>\<rparr> 0 0
       = Inr \<lparr>R = 124, G = 124, B = 124, A = 255\<rparr>"
    using n2 c(3) by (simp add: grey_200_100_50)
  have s: "Rectangle_Size (Bounds src_other_2x1) = Rectangle_Size (Bounds src_2x1)"
    by (simp add: src_2x1_def src_other_2x1_def)
  have v: "Color_RGBA_values (At src_other_2x1 0 0) = Color_RGBA_values (At src_2x1 0 0)"
    "Color_RGBA_values (At src_other_2x1 1 0) = Color_RGBA_values (At src_2x1 1 0)"
    by (simp_all add: src_2x1_def src_other_2x1_def widen_values)
  have all: "\<forall>x y. 0 \<le> x \<and> x < 2 \<and> 0 \<le> y \<and> y < 1
               \<longrightarrow> Color_RGBA_values (At src_other_2x1 x y) = Color_RGBA_values (At src_2x1 x y)"
  proof (intro allI impI)
    fix x y :: int
    assume "0 \<le> x \<and> x < 2 \<and> 0 \<le> y \<and> y < 1"
    then have "(x = 0 \<or> x = 1) \<and> y = 0" by auto
    then show "Color_RGBA_values (At src_other_2x1 x y) = Color_RGBA_values (At src_2x1 x y)"
      using v by auto
  qed
  have o: "toGreyscale (No_FMA, False) src_other_2x1 =
     Inr \<lparr>Pix = [124, 124, 124, 255, 76, 76, 76, 255], Stride = 8,
          Rect = \<lparr>Min_pt = \<lparr>X = 0, Y = 0\<rparr>, Max_pt = \<lparr>X = 2, Y = 1\<rparr>\<rparr>\<rparr>"
    using n2 s all by simp
  show ?thesis
    unfolding run_src_nrgba_2x1 run_src_2x1 d p0 p1 p2 o using c s v by simp
qed

text \<open>
  C4 as stated fails for an image in non-premultiplied 8-bit RGBA form, the form of a
  decoded PNG with an alpha channel: the stored pixel \<open>(10, 20, 30, 0)\<close> is normalized to
  \<open>(0, 0, 0, 0)\<close> and gives the output pixel \<open>(0, 0, 0, 0)\<close>, where its stored channels
  have the grey value 18; the stored pixel \<open>(200, 100, 50, 128)\<close> is normalized to
  \<open>(100, 50, 25, 128)\<close>. It also fails for two images with the same pixels in rectangles
  of different origin: the one at \<open>(10, 10)\<close> gives an output without any of them.
\<close>

theorem normalization_exact_counterexample:
  "At src_nrgba_2x1 1 0 = Color_NRGBA 10 20 30 0
   \<and> rgbaModel (At src_nrgba_2x1 1 0) = \<lparr>R = 0, G = 0, B = 0, A = 0\<rparr>
   \<and> greyValue (No_FMA, False) \<lparr>R = 10, G = 20, B = 30, A = 0\<rparr> = 18
   \<and> toGreyscale (No_FMA, False) src_nrgba_2x1 =
       Inr \<lparr>Pix = [124, 124, 124, 255, 0, 0, 0, 0], Stride = 8,
            Rect = \<lparr>Min_pt = \<lparr>X = 0, Y = 0\<rparr>, Max_pt = \<lparr>X = 2, Y = 1\<rparr>\<rparr>\<rparr>
   \<and> rgbaModel (Color_NRGBA 200 100 50 128) = \<lparr>R = 100, G = 50, B = 25, A = 128\<rparr>
   \<and> At src_2x1 0 0 = At src_offset_2x1 10 10
   \<and> At src_2x1 1 0 = At src_offset_2x1 11 10
   \<and> toGreyscale (No_FMA, False) src_2x1 =
       Inr \<lparr>Pix = [124, 124, 124, 255, 76, 76, 76, 255], Stride = 8,
            Rect = \<lparr>Min_pt = \<lparr>X = 0, Y = 0\<rparr>, Max_pt = \<lparr>X = 2, Y = 1\<rparr>\<rparr>\<rparr>
   \<and> toGreyscale (No_FMA, False) src_offset_2x1 =
       Inr \<lparr>Pix = [0, 0, 0, 0, 0, 0, 0, 0], Stride = 8,
            Rect = \<lparr>Min_pt = \<lparr>X = 0, Y = 0\<rparr>, Max_pt = \<lparr>X = 2, Y = 1\<rparr>\<rparr>\<rparr>"
proof -
  have c: "At src_nrgba_2x1 1 0 = Color_NRGBA 10 20 30 0"
    "At src_2x1 0 0 = At src_offset_2x1 10 10" "At src_2x1 1 0 = At src_offset_2x1 11 10"
    by (simp_all add: src_nrgba_2x1_def src_2x1_def src_offset_2x1_def)
  have n: "rgbaModel (At src_nrgba_2x1 1 0) = \<lparr>R = 0, G = 0, B = 0, A = 0\<rparr>"
    unfolding c(1) by (rule NRGBA_premultiplies)
  show ?thesis
    unfolding n run_src_nrgba_2x1 run_src_2x1 run_src_offset_2x1 grey_10_20_30
      NRGBA_premultiplies(1)
    using c by simp
qed


end
